theory Spec2Isabelle
  imports Main
begin

section \<open>Strings and numbers of the host language\<close>

text \<open>
  The script \<^verbatim>\<open>static/app.js\<close> runs in a browser. A JavaScript string is modelled as a
  \<^typ>\<open>string\<close>: a list of code units, restricted to the code units U+0000 .. U+00FF that a
  \<^typ>\<open>char\<close> can hold.

  The values a variable of the script can hold are \<^verbatim>\<open>null\<close>, a number and a string. The
  numbers that arise are \<open>NaN\<close>, the two infinities and the doubles whose value is an integer
  (\<open>Num\<close>, which also stands for \<open>-0\<close> at \<open>0\<close>: the two print and test alike). A double
  has 53 significant bits, so not every integer is one: \<open>roundToDouble\<close> gives the number
  that the language puts for a non-negative integer, the nearest double, the one with the
  even significand when two are as near, and \<open>Infinity\<close> from \<open>2 ^ 1024 - 2 ^ 970\<close>.
\<close>

datatype jsvalue = Null | NaN | Num int | Infinity | NegInfinity | Str string

definition isWhiteSpace :: "char \<Rightarrow> bool" where
  \<comment> \<open>WhiteSpace and LineTerminator of the language, among the code units below 256:
      TAB, LF, VT, FF, CR, SP, NBSP.\<close>
  "isWhiteSpace c \<longleftrightarrow> (of_char c :: nat) \<in> {9, 10, 11, 12, 13, 32, 160}"

definition trim :: "string \<Rightarrow> string" where
  \<comment> \<open>\<^verbatim>\<open>String.prototype.trim\<close>\<close>
  "trim s = rev (dropWhile isWhiteSpace (rev (dropWhile isWhiteSpace s)))"

definition isDigit :: "char \<Rightarrow> bool" where
  \<comment> \<open>the class \<^verbatim>\<open>\d\<close>, and the digits of radix 10\<close>
  "isDigit c \<longleftrightarrow> 48 \<le> (of_char c :: nat) \<and> (of_char c :: nat) \<le> 57"

definition isWord :: "char \<Rightarrow> bool" where
  \<comment> \<open>the class \<^verbatim>\<open>\w\<close>: \<^verbatim>\<open>[A-Za-z0-9_]\<close>\<close>
  "isWord c \<longleftrightarrow>
     (let n = (of_char c :: nat)
      in (65 \<le> n \<and> n \<le> 90) \<or> (97 \<le> n \<and> n \<le> 122) \<or> (48 \<le> n \<and> n \<le> 57) \<or> n = 95)"

function bitLength :: "int \<Rightarrow> nat" where
  "bitLength n = (if n \<le> 0 then 0 else Suc (bitLength (n div 2)))"
  by pat_completeness auto
termination
  by (relation "measure nat") auto

declare bitLength.simps [simp del]

definition roundToDouble :: "int \<Rightarrow> jsvalue" where
  \<comment> \<open>for \<open>n\<close> of more than 53 bits: \<open>q\<close> is its first 53 bits, \<open>r\<close> the \<open>e\<close> bits cut off,
      \<open>h\<close> the half of a unit of \<open>q\<close>\<close>
  "roundToDouble n =
     (if n < 2 ^ 53 then Num n
      else
        (let e = bitLength n - 53;
             q = n div 2 ^ e;
             r = n mod 2 ^ e;
             h = 2 ^ (e - 1);
             q' = (if h < r \<or> (r = h \<and> odd q) then q + 1 else q);
             v = q' * 2 ^ e
         in if 2 ^ 1024 \<le> v then Infinity else Num v))"

definition digitChar :: "int \<Rightarrow> char" where
  "digitChar d = char_of (48 + d)"

function decimal :: "int \<Rightarrow> string" where
  "decimal n = (if n < 10 then [digitChar n] else decimal (n div 10) @ [digitChar (n mod 10)])"
  by pat_completeness auto
termination
  by (relation "measure nat") auto

declare decimal.simps [simp del]

text \<open>
  \<^verbatim>\<open>ToString\<close> of a number writes the decimal numeral with the fewest significant digits
  that still denotes a number rounding to it, the nearest to it when there are several.
  \<open>shortestFrom x z\<close> looks for that numeral among the multiples of \<open>10 ^ z\<close> next to \<open>x\<close>,
  then of \<open>10 ^ (z - 1)\<close>, down to \<open>x\<close> itself. A numeral of up to 21 digits is written in
  full, a longer one with an exponent.
\<close>

primrec shortestFrom :: "int \<Rightarrow> nat \<Rightarrow> int" where
  "shortestFrom x 0 = x"
| "shortestFrom x (Suc z) =
     (let p = 10 ^ Suc z;
          lo = (x div p) * p;
          hi = lo + p;
          okLo = (roundToDouble lo = Num x);
          okHi = (roundToDouble hi = Num x)
      in if okLo \<and> okHi then
           (if x - lo < hi - x then lo
            else if hi - x < x - lo then hi
            else if even (x div p) then lo else hi)
         else if okLo then lo
         else if okHi then hi
         else shortestFrom x z)"

definition significand :: "string \<Rightarrow> string" where
  \<comment> \<open>a numeral without its trailing zeros\<close>
  "significand ds = rev (dropWhile (\<lambda>c. c = CHR ''0'') (rev ds))"

definition numberToString :: "int \<Rightarrow> string" where
  \<comment> \<open>\<^verbatim>\<open>Number::toString\<close> of a non-negative integer-valued double\<close>
  "numberToString x =
     (let ds = decimal (shortestFrom x (length (decimal x)));
          n = length ds
      in if n \<le> 21 then ds
         else (case significand ds of
                 [] \<Rightarrow> ds
               | [d] \<Rightarrow> d # ''e+'' @ decimal (int (n - 1))
               | d # r \<Rightarrow> d # CHR ''.'' # r @ ''e+'' @ decimal (int (n - 1))))"

fun toString :: "jsvalue \<Rightarrow> string" where
  \<comment> \<open>\<^verbatim>\<open>ToString\<close>, as a template literal and \<^verbatim>\<open>URLSearchParams.set\<close> apply it\<close>
  "toString Null = ''null''"
| "toString NaN = ''NaN''"
| "toString (Num i) = (if i < 0 then CHR ''-'' # numberToString (- i) else numberToString i)"
| "toString Infinity = ''Infinity''"
| "toString NegInfinity = ''-Infinity''"
| "toString (Str s) = s"

definition digitsValue :: "string \<Rightarrow> int" where
  \<comment> \<open>the integer that a run of decimal digits denotes\<close>
  "digitsValue ds = foldl (\<lambda>acc c. 10 * acc + (of_char c - 48)) 0 ds"

fun negate :: "jsvalue \<Rightarrow> jsvalue" where
  "negate (Num v) = Num (- v)"
| "negate Infinity = NegInfinity"
| "negate NegInfinity = Infinity"
| "negate v = v"

definition parseInt10 :: "string \<Rightarrow> jsvalue" where
  \<comment> \<open>\<^verbatim>\<open>parseInt(s, 10)\<close>: leading white space is skipped, one sign is read, then the
      longest run of decimal digits; no digit gives \<open>NaN\<close>, and the digits give the double
      for the integer they denote. (The language lets an implementation read the digits
      after the twentieth significant one as zeros; the engines do not, and neither reading
      changes a value up to \<open>2 ^ 53\<close> or makes a value from \<open>2 ^ 1024\<close> finite.)\<close>
  "parseInt10 s =
     (let s1 = dropWhile isWhiteSpace s;
          neg = (case s1 of [] \<Rightarrow> False | c # _ \<Rightarrow> c = CHR ''-'');
          s2 = (case s1 of [] \<Rightarrow> [] | c # r \<Rightarrow> if c = CHR ''-'' \<or> c = CHR ''+'' then r else s1);
          ds = takeWhile isDigit s2
      in if ds = [] then NaN
         else if neg then negate (roundToDouble (digitsValue ds))
         else roundToDouble (digitsValue ds))"

fun truthy :: "jsvalue \<Rightarrow> bool" where
  \<comment> \<open>\<^verbatim>\<open>ToBoolean\<close>\<close>
  "truthy Null = False"
| "truthy NaN = False"
| "truthy (Num i) = (i \<noteq> 0)"
| "truthy Infinity = True"
| "truthy NegInfinity = True"
| "truthy (Str s) = (s \<noteq> [])"

section \<open>URLSearchParams\<close>

text \<open>
  A \<^verbatim>\<open>URLSearchParams\<close> object is its list of name-value pairs, in order.
  \<^verbatim>\<open>toString\<close> is the \<^verbatim>\<open>application/x-www-form-urlencoded\<close> serializer of the URL
  standard: each string is encoded in UTF-8, a space becomes \<open>+\<close>, the bytes of
  \<^verbatim>\<open>[A-Za-z0-9*._-]\<close> stay, every other byte becomes \<^verbatim>\<open>%XX\<close>.
\<close>

type_synonym urlSearchParams = "(string \<times> string) list"

fun setFirst :: "urlSearchParams \<Rightarrow> string \<Rightarrow> string \<Rightarrow> urlSearchParams" where
  "setFirst [] n v = []"
| "setFirst ((k, x) # ps) n v =
     (if k = n then (k, v) # filter (\<lambda>p. fst p \<noteq> n) ps else (k, x) # setFirst ps n v)"

definition params_set :: "urlSearchParams \<Rightarrow> string \<Rightarrow> string \<Rightarrow> urlSearchParams" where
  \<comment> \<open>\<^verbatim>\<open>params.set(name, value)\<close>: the first pair of that name takes the value and the
      others go; with no such pair, the pair is appended.\<close>
  "params_set ps n v = (if n \<in> set (map fst ps) then setFirst ps n v else ps @ [(n, v)])"

definition hexDigit :: "nat \<Rightarrow> char" where
  "hexDigit n = (if n < 10 then char_of (48 + n) else char_of (55 + n))"

definition percentEncodeByte :: "nat \<Rightarrow> string" where
  "percentEncodeByte b = [CHR ''%'', hexDigit (b div 16), hexDigit (b mod 16)]"

definition utf8Encode :: "char \<Rightarrow> nat list" where
  \<comment> \<open>UTF-8 of a code point below U+0100: one byte below U+0080, two bytes from there\<close>
  "utf8Encode c =
     (let n = (of_char c :: nat) in if n < 128 then [n] else [192 + n div 64, 128 + n mod 64])"

definition isUrlencodedSafe :: "nat \<Rightarrow> bool" where
  "isUrlencodedSafe b \<longleftrightarrow>
     (48 \<le> b \<and> b \<le> 57) \<or> (65 \<le> b \<and> b \<le> 90) \<or> (97 \<le> b \<and> b \<le> 122) \<or>
     b = 42 \<or> b = 45 \<or> b = 46 \<or> b = 95"

definition urlencodedByte :: "nat \<Rightarrow> string" where
  "urlencodedByte b =
     (if b = 32 then ''+'' else if isUrlencodedSafe b then [char_of b] else percentEncodeByte b)"

definition urlencoded :: "string \<Rightarrow> string" where
  "urlencoded s = concat (map urlencodedByte (concat (map utf8Encode s)))"

fun joinAmp :: "string list \<Rightarrow> string" where
  "joinAmp [] = []"
| "joinAmp [x] = x"
| "joinAmp (x # y # r) = x @ CHR ''&'' # joinAmp (y # r)"

definition params_toString :: "urlSearchParams \<Rightarrow> string" where
  "params_toString ps = joinAmp (map (\<lambda>(n, v). urlencoded n @ CHR ''='' # urlencoded v) ps)"

subsection \<open>Reading a query back\<close>

text \<open>
  What parameters a URL contains is what the \<^verbatim>\<open>application/x-www-form-urlencoded\<close> parser
  of the URL standard reads from its query: the query is cut at each \<open>&\<close>, empty pieces are
  dropped, a piece is cut at its first \<open>=\<close>, \<open>+\<close> becomes a space, \<^verbatim>\<open>%XX\<close> becomes a byte,
  and the bytes are decoded as UTF-8. The result is \<open>None\<close> when the bytes decode to
  something that is not a string of the model (a code point from U+0100, or ill-formed
  UTF-8).
\<close>

fun splitOn :: "char \<Rightarrow> string \<Rightarrow> string list" where
  "splitOn c [] = [[]]"
| "splitOn c (x # xs) =
     (let r = splitOn c xs in if x = c then [] # r else (x # hd r) # tl r)"

definition isHex :: "char \<Rightarrow> bool" where
  "isHex c \<longleftrightarrow>
     (let n = (of_char c :: nat)
      in (48 \<le> n \<and> n \<le> 57) \<or> (65 \<le> n \<and> n \<le> 70) \<or> (97 \<le> n \<and> n \<le> 102))"

definition hexVal :: "char \<Rightarrow> nat" where
  "hexVal c =
     (let n = (of_char c :: nat)
      in if n \<le> 57 then n - 48 else if n \<le> 70 then n - 55 else n - 87)"

fun percentDecode :: "string \<Rightarrow> nat list" where
  "percentDecode [] = []"
| "percentDecode (c # cs) =
     (if c = CHR ''%'' then
        (case cs of
           a # b # r \<Rightarrow>
             if isHex a \<and> isHex b then (16 * hexVal a + hexVal b) # percentDecode r
             else 37 # percentDecode cs
         | _ \<Rightarrow> 37 # percentDecode cs)
      else of_char c # percentDecode cs)"

fun utf8Decode :: "nat list \<Rightarrow> string option" where
  "utf8Decode [] = Some []"
| "utf8Decode (b # bs) =
     (if b < 128 then map_option ((#) (char_of b)) (utf8Decode bs)
      else if b = 194 \<or> b = 195 then
        (case bs of
           [] \<Rightarrow> None
         | b2 # r \<Rightarrow>
             if 128 \<le> b2 \<and> b2 < 192
             then map_option ((#) (char_of ((b - 192) * 64 + (b2 - 128)))) (utf8Decode r)
             else None)
      else None)"

definition plusToSpace :: "string \<Rightarrow> string" where
  "plusToSpace s = map (\<lambda>c. if c = CHR ''+'' then CHR '' '' else c) s"

definition urldecoded :: "string \<Rightarrow> string option" where
  "urldecoded s = utf8Decode (percentDecode (plusToSpace s))"

definition parsePair :: "string \<Rightarrow> (string \<times> string) option" where
  "parsePair piece =
     (case (urldecoded (takeWhile (\<lambda>c. c \<noteq> CHR ''='') piece),
            urldecoded (drop 1 (dropWhile (\<lambda>c. c \<noteq> CHR ''='') piece))) of
        (Some n, Some v) \<Rightarrow> Some (n, v)
      | _ \<Rightarrow> None)"

fun sequence :: "'a option list \<Rightarrow> 'a list option" where
  "sequence [] = Some []"
| "sequence (None # r) = None"
| "sequence (Some x # r) = map_option ((#) x) (sequence r)"

definition parseQuery :: "string \<Rightarrow> urlSearchParams option" where
  "parseQuery q = sequence (map parsePair (filter (\<lambda>p. p \<noteq> []) (splitOn CHR ''&'' q)))"

definition searchParams :: "string \<Rightarrow> urlSearchParams option" where
  \<comment> \<open>the parameters of a URL: its query runs from the first \<open>?\<close> to the fragment\<close>
  "searchParams url =
     parseQuery (drop 1 (dropWhile (\<lambda>c. c \<noteq> CHR ''?'') (takeWhile (\<lambda>c. c \<noteq> CHR ''#'') url)))"

definition reserved :: "char set" where
  \<comment> \<open>the characters that delimit a query and its pieces\<close>
  "reserved = {CHR ''&'', CHR ''='', CHR ''#'', CHR ''?''}"

definition getAll :: "urlSearchParams \<Rightarrow> string \<Rightarrow> string list" where
  \<comment> \<open>\<^verbatim>\<open>params.getAll(name)\<close>\<close>
  "getAll ps n = map snd (filter (\<lambda>p. fst p = n) ps)"

section \<open>Regular expressions\<close>

text \<open>
  The fragment of regular expressions the script uses: a pattern is a sequence of items,
  each a literal character, a greedy \<open>+\<close> over a character class, or such a \<open>+\<close> inside a
  capture group. Matching backtracks as the language prescribes: a greedy \<open>+\<close> first takes
  the longest run and gives characters back one at a time while the rest of the pattern
  fails; the search tries each start position from the left.
\<close>

datatype charClass = Word | Digit

fun inClass :: "charClass \<Rightarrow> char \<Rightarrow> bool" where
  "inClass Word c = isWord c"
| "inClass Digit c = isDigit c"

datatype item = Lit char | Plus charClass | GroupPlus charClass

primrec firstDown :: "nat \<Rightarrow> (nat \<Rightarrow> 'a option) \<Rightarrow> 'a option" where
  "firstDown 0 f = None"
| "firstDown (Suc k) f = (case f (Suc k) of Some r \<Rightarrow> Some r | None \<Rightarrow> firstDown k f)"

primrec matchHere :: "item list \<Rightarrow> string \<Rightarrow> string list \<Rightarrow> string list option" where
  \<comment> \<open>the captures of the first way, in backtracking order, to match the items at the start
      of the string\<close>
  "matchHere [] = (\<lambda>s caps. Some caps)"
| "matchHere (i # r) = (\<lambda>s caps.
     case i of
       Lit c \<Rightarrow> (case s of [] \<Rightarrow> None | x # xs \<Rightarrow> if x = c then matchHere r xs caps else None)
     | Plus cl \<Rightarrow>
         firstDown (length (takeWhile (inClass cl) s)) (\<lambda>k. matchHere r (drop k s) caps)
     | GroupPlus cl \<Rightarrow>
         firstDown (length (takeWhile (inClass cl) s))
           (\<lambda>k. matchHere r (drop k s) (caps @ [take k s])))"

primrec regexSearch :: "item list \<Rightarrow> string \<Rightarrow> string list option" where
  \<comment> \<open>\<^verbatim>\<open>String.prototype.match\<close> with a pattern without the \<open>g\<close> flag: the captures of
      the leftmost match, \<open>None\<close> for \<^verbatim>\<open>null\<close>\<close>
  "regexSearch pat [] = matchHere pat [] []"
| "regexSearch pat (x # xs) =
     (case matchHere pat (x # xs) [] of Some caps \<Rightarrow> Some caps | None \<Rightarrow> regexSearch pat xs)"

definition filenamePattern :: "item list" where
  \<comment> \<open>\<^verbatim>\<open>/filename=wallpaper_\w+_(\d+)\.svg/\<close>\<close>
  "filenamePattern =
     map Lit ''filename=wallpaper_'' @ [Plus Word, Lit CHR ''_'', GroupPlus Digit] @ map Lit ''.svg''"

text \<open>
  What it is for a header value \<open>h\<close> to hold a file name of the pattern at the offset
  \<open>length pre\<close>: after \<open>pre\<close> come \<^verbatim>\<open>filename=wallpaper_\<close>, a non-empty run \<open>w\<close> of word
  characters, an underscore, a non-empty run \<open>ds\<close> of digits, and \<^verbatim>\<open>.svg\<close>.
\<close>

definition matchesFilename :: "string \<Rightarrow> string \<Rightarrow> string \<Rightarrow> string \<Rightarrow> string \<Rightarrow> bool" where
  "matchesFilename h pre w ds post \<longleftrightarrow>
     h = pre @ ''filename=wallpaper_'' @ w @ ''_'' @ ds @ ''.svg'' @ post \<and>
     w \<noteq> [] \<and> list_all isWord w \<and> ds \<noteq> [] \<and> list_all isDigit ds"

section \<open>The page\<close>

text \<open>
  The state the script reads and writes: its variable \<^verbatim>\<open>currentCharacterId\<close>, the content
  of the preview container, the values of the three controls, and two logs of what the
  script asks of the browser: the URLs passed to \<^verbatim>\<open>fetch\<close>, and the \<^verbatim>\<open>href\<close> and
  \<^verbatim>\<open>download\<close> of each link it clicks. The elements the script looks up are taken to
  exist, and the document to be an HTML document, where assigning \<^verbatim>\<open>innerHTML\<close> does not
  raise.
\<close>

record page =
  currentCharacterId :: jsvalue
  previewContainer_innerHTML :: string
  characterSetSelect_value :: string
  iphoneModelSelect_value :: string
  characterIdInput_value :: string
  fetched :: "string list"
  clicked :: "(string \<times> string) list"

definition buildApiParams :: "page \<Rightarrow> string \<Rightarrow> bool \<Rightarrow> urlSearchParams" where
  \<comment> \<open>\<^verbatim>\<open>params\<close> at the \<^verbatim>\<open>return\<close> of \<^verbatim>\<open>buildApiUrl\<close>\<close>
  "buildApiParams st outputType useCurrentId =
     (let params = [(''output_type'', outputType),
                    (''character_list'', characterSetSelect_value st),
                    (''iphone_model'', iphoneModelSelect_value st)];
          charId = trim (characterIdInput_value st)
      in if charId \<noteq> [] then params_set params ''character_id'' charId
         else if useCurrentId \<and> currentCharacterId st \<noteq> Null
         then params_set params ''character_id'' (toString (currentCharacterId st))
         else params)"

definition buildApiUrl :: "page \<Rightarrow> string \<Rightarrow> bool \<Rightarrow> string" where
  "buildApiUrl st outputType useCurrentId =
     ''/hanja-api/wallpaper?'' @ params_toString (buildApiParams st outputType useCurrentId)"

definition loadingIndicator :: string where
  \<open>loadingIndicator =
     CHR 0x0A # ''        <div class="loading-placeholder">'' @
     CHR 0x0A # ''            <div class="spinner-border text-light" role="status">'' @
     CHR 0x0A # ''                <span class="visually-hidden">Loading...</span>'' @
     CHR 0x0A # ''            </div>'' @
     CHR 0x0A # ''        </div>'' @
     CHR 0x0A # ''    ''\<close>

definition errorIndicator :: string where
  \<open>errorIndicator =
     CHR 0x0A # ''            <div class="loading-placeholder text-danger">'' @
     CHR 0x0A # ''                <span>Error loading preview</span>'' @
     CHR 0x0A # ''            </div>'' @
     CHR 0x0A # ''        ''\<close>

definition showLoading :: "page \<Rightarrow> page" where
  "showLoading st = st\<lparr>previewContainer_innerHTML := loadingIndicator\<rparr>"

subsection \<open>The preview fetch\<close>

text \<open>
  What the network answers is an input of the model: \<^verbatim>\<open>fetch\<close> rejects, or resolves with
  a response, which has a status, the value of \<^verbatim>\<open>headers.get('Content-Disposition')\<close>
  (\<open>None\<close> for \<^verbatim>\<open>null\<close>) and a body that \<^verbatim>\<open>text()\<close> reads or fails to read.
\<close>

datatype body = BodyError | BodyText string

record response =
  response_status :: nat
  response_contentDisposition :: "string option"
  response_text :: body

datatype fetchResult = Rejected | Resolved response

datatype exn = NetworkError | HttpError nat | BodyReadError

definition response_ok :: "response \<Rightarrow> bool" where
  "response_ok r \<longleftrightarrow> 200 \<le> response_status r \<and> response_status r \<le> 299"

text \<open>
  \<^verbatim>\<open>fetchPreview\<close> is an \<^verbatim>\<open>async\<close> function with two \<^verbatim>\<open>await\<close>s. It runs in three
  pieces, each on the page as it is when the piece starts: up to the call of \<^verbatim>\<open>fetch\<close>;
  from the settling of \<^verbatim>\<open>fetch\<close> to the call of \<^verbatim>\<open>text()\<close>; from the settling of
  \<^verbatim>\<open>text()\<close> to the end. The two pieces inside \<^verbatim>\<open>try\<close> return \<open>Inl\<close> where they throw,
  and \<^verbatim>\<open>catch\<close> takes over from there. The result of the whole is \<open>Inr\<close> when the promise of
  \<^verbatim>\<open>fetchPreview\<close> is fulfilled and \<open>Inl\<close> when it is rejected.
\<close>

definition fetchPreview_start :: "page \<Rightarrow> page" where
  "fetchPreview_start st =
     (let st1 = showLoading st;
          url = buildApiUrl st1 ''svg'' False
      in st1\<lparr>fetched := fetched st1 @ [url]\<rparr>)"

definition tryFetched :: "fetchResult \<Rightarrow> exn + response" where
  "tryFetched r =
     (case r of
        Rejected \<Rightarrow> Inl NetworkError
      | Resolved resp \<Rightarrow>
          if \<not> response_ok resp then Inl (HttpError (response_status resp)) else Inr resp)"

definition extractCharacterId :: "response \<Rightarrow> page \<Rightarrow> page" where
  \<comment> \<open>the lines under \<^verbatim>\<open>// Extract character ID from the response headers\<close>; an empty
      header value is falsy; \<^verbatim>\<open>match[1]\<close> is the first capture\<close>
  "extractCharacterId resp st =
     (case response_contentDisposition resp of
        None \<Rightarrow> st
      | Some contentDisposition \<Rightarrow>
          if contentDisposition \<noteq> [] then
            (case regexSearch filenamePattern contentDisposition of
               None \<Rightarrow> st
             | Some caps \<Rightarrow>
                 st\<lparr>currentCharacterId := (case caps of [] \<Rightarrow> NaN | g # _ \<Rightarrow> parseInt10 g)\<rparr>)
          else st)"

definition tryText :: "response \<Rightarrow> page \<Rightarrow> exn + page" where
  "tryText resp st =
     (case response_text resp of
        BodyError \<Rightarrow> Inl BodyReadError
      | BodyText svgText \<Rightarrow>
          Inr (extractCharacterId resp (st\<lparr>previewContainer_innerHTML := svgText\<rparr>)))"

definition catch :: "page \<Rightarrow> page" where
  "catch st = st\<lparr>previewContainer_innerHTML := errorIndicator\<rparr>"

definition fetchPreview_onFetch :: "fetchResult \<Rightarrow> page \<Rightarrow> exn + page \<times> response option" where
  \<comment> \<open>\<open>Some resp\<close>: the function now awaits \<^verbatim>\<open>resp.text()\<close>; \<open>None\<close>: it has returned\<close>
  "fetchPreview_onFetch r st =
     (case tryFetched r of Inl e \<Rightarrow> Inr (catch st, None) | Inr resp \<Rightarrow> Inr (st, Some resp))"

definition fetchPreview_onText :: "response \<Rightarrow> page \<Rightarrow> exn + page" where
  "fetchPreview_onText resp st =
     (case tryText resp st of Inl e \<Rightarrow> Inr (catch st) | Inr st' \<Rightarrow> Inr st')"

definition fetchPreview :: "fetchResult \<Rightarrow> page \<Rightarrow> exn + page" where
  \<comment> \<open>a call of \<^verbatim>\<open>fetchPreview\<close> run to its end with no other handler in between\<close>
  "fetchPreview r st =
     (case fetchPreview_onFetch r (fetchPreview_start st) of
        Inl e \<Rightarrow> Inl e
      | Inr (st1, None) \<Rightarrow> Inr st1
      | Inr (st1, Some resp) \<Rightarrow> fetchPreview_onText resp st1)"

subsection \<open>The download\<close>

definition downloadName :: "page \<Rightarrow> string" where
  \<comment> \<open>the template literal assigned to \<^verbatim>\<open>link.download\<close>\<close>
  "downloadName st =
     ''wallpaper_'' @ characterSetSelect_value st @ ''_'' @
     (if truthy (currentCharacterId st) then toString (currentCharacterId st) else ''random'') @
     ''.png''"

definition downloadPng :: "page \<Rightarrow> page" where
  "downloadPng st =
     (let url = buildApiUrl st ''png'' True
      in st\<lparr>clicked := clicked st @ [(url, downloadName st)]\<rparr>)"

subsection \<open>The event listeners\<close>

definition onRefreshClick :: "page \<Rightarrow> page" where
  "onRefreshClick st = fetchPreview_start (st\<lparr>currentCharacterId := Null\<rparr>)"

definition onCharacterSetChange :: "page \<Rightarrow> page" where
  "onCharacterSetChange st = fetchPreview_start (st\<lparr>currentCharacterId := Null\<rparr>)"

definition onIphoneModelChange :: "page \<Rightarrow> page" where
  "onIphoneModelChange st = fetchPreview_start st"

definition onCharacterIdChange :: "page \<Rightarrow> page" where
  "onCharacterIdChange st = fetchPreview_start (st\<lparr>currentCharacterId := Null\<rparr>)"

definition onDOMContentLoaded :: "page \<Rightarrow> page" where
  \<comment> \<open>\<^verbatim>\<open>lucide.createIcons()\<close> draws icons and touches nothing of the state\<close>
  "onDOMContentLoaded st = fetchPreview_start st"

text \<open>
  What can happen to the page: the user acts on a control (the browser stores the new value
  of a control before its \<^verbatim>\<open>change\<close> listener runs), the document finishes loading, or an
  awaited promise of some call of \<^verbatim>\<open>fetchPreview\<close> settles. Which calls are pending is not
  tracked: a settling event may come at any time, with any answer.
\<close>

datatype event =
    DownloadClick
  | RefreshClick
  | CharacterSetChange string
  | IphoneModelChange string
  | CharacterIdChange string
  | DOMContentLoaded
  | FetchSettled fetchResult
  | TextSettled response

fun handle :: "event \<Rightarrow> page \<Rightarrow> page" where
  "handle DownloadClick st = downloadPng st"
| "handle RefreshClick st = onRefreshClick st"
| "handle (CharacterSetChange v) st = onCharacterSetChange (st\<lparr>characterSetSelect_value := v\<rparr>)"
| "handle (IphoneModelChange v) st = onIphoneModelChange (st\<lparr>iphoneModelSelect_value := v\<rparr>)"
| "handle (CharacterIdChange v) st = onCharacterIdChange (st\<lparr>characterIdInput_value := v\<rparr>)"
| "handle DOMContentLoaded st = onDOMContentLoaded st"
| "handle (FetchSettled r) st =
     (case fetchPreview_onFetch r st of Inl e \<Rightarrow> st | Inr (st', _) \<Rightarrow> st')"
| "handle (TextSettled resp) st =
     (case fetchPreview_onText resp st of Inl e \<Rightarrow> st | Inr st' \<Rightarrow> st')"





subsection \<open>Examples\<close>

text \<open>
  A page with the given last-seen id and content of the id field, and a response with the
  given status and \<^verbatim>\<open>Content-Disposition\<close> header.
\<close>

definition examplePage :: "jsvalue \<Rightarrow> string \<Rightarrow> page" where
  "examplePage v field =
     \<lparr>currentCharacterId = v, previewContainer_innerHTML = [],
      characterSetSelect_value = ''hanja'', iphoneModelSelect_value = ''iphone 15'',
      characterIdInput_value = field, fetched = [], clicked = []\<rparr>"


definition exampleResponse :: "nat \<Rightarrow> string option \<Rightarrow> response" where
  "exampleResponse status header =
     \<lparr>response_status = status, response_contentDisposition = header,
      response_text = BodyText ''<svg/>''\<rparr>"

section \<open>A serialized query reads back as the pairs it was made from\<close>

lemma char_eq_code: "of_char d = (n::nat) \<Longrightarrow> (c = d \<longleftrightarrow> of_char c = n)"
  by (auto intro: of_char_eqI)

lemma chr_codes:
  "c = CHR ''&'' \<longleftrightarrow> of_char c = (38::nat)"
  "c = CHR ''='' \<longleftrightarrow> of_char c = (61::nat)"
  "c = CHR ''+'' \<longleftrightarrow> of_char c = (43::nat)"
  "c = CHR ''#'' \<longleftrightarrow> of_char c = (35::nat)"
  "c = CHR ''%'' \<longleftrightarrow> of_char c = (37::nat)"
  "c = CHR ''?'' \<longleftrightarrow> of_char c = (63::nat)"
  by (rule char_eq_code, simp)+

lemma hexDigit_cases:
  assumes "n < 16"
  shows "isHex (hexDigit n) \<and> hexVal (hexDigit n) = n \<and>
         hexDigit n \<notin> {CHR ''&'', CHR ''='', CHR ''+'', CHR ''#'', CHR ''%'', CHR ''?''}"
proof -
  from assms have "n \<in> {0,1,2,3,4,5,6,7,8,9,10,11,12,13,14,15}" by simp arith
  then show ?thesis
    by (auto simp: hexDigit_def isHex_def hexVal_def chr_codes)
qed

lemma safe_char:
  assumes "isUrlencodedSafe b"
  shows "of_char (char_of b :: char) = b" 
    and "char_of b \<notin> {CHR ''&'', CHR ''='', CHR ''+'', CHR ''#'', CHR ''%'', CHR ''?''}"
proof -
  from assms have lt: "b < 256" by (auto simp: isUrlencodedSafe_def)
  then show "of_char (char_of b :: char) = b" by simp
  show "char_of b \<notin> {CHR ''&'', CHR ''='', CHR ''+'', CHR ''#'', CHR ''%'', CHR ''?''}"
    using assms lt by (auto simp: isUrlencodedSafe_def chr_codes)
qed

lemma urlencodedByte_reserved:
  assumes "b < 256"
  shows "set (urlencodedByte b) \<inter> reserved = {}"
proof -
  have "b div 16 < 16" "b mod 16 < 16" using assms by auto
  then show ?thesis
    using hexDigit_cases [of "b div 16"] hexDigit_cases [of "b mod 16"] safe_char(2) [of b]
    by (auto simp: urlencodedByte_def percentEncodeByte_def reserved_def)
qed

lemma percentDecode_byte:
  assumes "b < 256"
  shows "percentDecode (plusToSpace (urlencodedByte b @ r)) = b # percentDecode (plusToSpace r)"
proof -
  have h: "b div 16 < 16" "b mod 16 < 16" using assms by auto
  show ?thesis
    using hexDigit_cases [OF h(1)] hexDigit_cases [OF h(2)] safe_char [of b]
    by (auto simp: urlencodedByte_def percentEncodeByte_def plusToSpace_def)
qed

lemma of_char_lt: "(of_char c :: nat) < 256"
  by (metis of_char_mod_256 mod_less_divisor zero_less_numeral)

lemma utf8Encode_bytes: "b \<in> set (utf8Encode c) \<Longrightarrow> b < 256"
proof -
  define n where "n = (of_char c :: nat)"
  have "n < 256" unfolding n_def by (rule of_char_lt)
  then have "192 + n div 64 < 256" "128 + n mod 64 < 256" by arith+
  then show "b \<in> set (utf8Encode c) \<Longrightarrow> b < 256"
    using \<open>n < 256\<close> by (auto simp: utf8Encode_def Let_def n_def [symmetric] split: if_splits)
qed

lemma utf8Decode_char: "utf8Decode (utf8Encode c @ bs) = map_option ((#) c) (utf8Decode bs)"
proof -
  have lt: "(of_char c :: nat) < 256"
    by (metis of_char_mod_256 mod_less_divisor zero_less_numeral)
  show ?thesis
  proof (cases "(of_char c :: nat) < 128")
    case True
    then show ?thesis by (simp add: utf8Encode_def)
  next
    case False
    define n where "n = (of_char c :: nat)"
    have n: "128 \<le> n" "n < 256" using False lt by (simp_all add: n_def)
    then have d: "n div 64 = 2 \<or> n div 64 = 3" by arith
    have "char_of (n div 64 * 64 + n mod 64) = c" by (simp add: n_def)
    then show ?thesis using n d
      by (auto simp: utf8Encode_def n_def [symmetric])
  qed
qed


lemma percentDecode_bytes:
  assumes "\<forall>b \<in> set bs. b < 256"
  shows "percentDecode (plusToSpace (concat (map urlencodedByte bs) @ r)) = bs @ percentDecode (plusToSpace r)"
  using assms
proof (induction bs)
  case Nil
  then show ?case by simp
next
  case (Cons b bs)
  then show ?case using percentDecode_byte [of b "concat (map urlencodedByte bs) @ r"] by simp
qed

lemma utf8Decode_string: "utf8Decode (concat (map utf8Encode s)) = Some s"
  by (induction s) (simp_all add: utf8Decode_char)

lemma urldecoded_urlencoded: "urldecoded (urlencoded s) = Some s"
proof -
  have "\<forall>b \<in> set (concat (map utf8Encode s)). b < 256"
    by (auto dest: utf8Encode_bytes)
  from percentDecode_bytes [OF this, of "[]"] show ?thesis
    by (simp add: urldecoded_def urlencoded_def plusToSpace_def utf8Decode_string)
qed

lemma urlencoded_reserved: "set (urlencoded s) \<inter> reserved = {}"
proof -
  have "\<And>b. b \<in> set (concat (map utf8Encode s)) \<Longrightarrow> set (urlencodedByte b) \<inter> reserved = {}"
    by (rule urlencodedByte_reserved) (auto dest: utf8Encode_bytes)
  then show ?thesis unfolding urlencoded_def by auto
qed

lemma parsePair_urlencoded:
  "parsePair (urlencoded n @ CHR ''='' # urlencoded v) = Some (n, v)"
proof -
  have "CHR ''='' \<notin> set (urlencoded n)"
    using urlencoded_reserved [of n] by (auto simp: reserved_def)
  then have "takeWhile (\<lambda>c. c \<noteq> CHR ''='') (urlencoded n @ CHR ''='' # urlencoded v) = urlencoded n"
    and "dropWhile (\<lambda>c. c \<noteq> CHR ''='') (urlencoded n @ CHR ''='' # urlencoded v) = CHR ''='' # urlencoded v"
    by (auto simp: takeWhile_tail dropWhile_append3)
  then show ?thesis by (simp add: parsePair_def urldecoded_urlencoded)
qed

lemma splitOn_append:
  "c \<notin> set a \<Longrightarrow> splitOn c (a @ c # r) = a # splitOn c r"
  by (induction a) (auto simp: Let_def)

lemma splitOn_single: "c \<notin> set a \<Longrightarrow> splitOn c a = [a]"
  by (induction a) (auto simp: Let_def)

lemma splitOn_joinAmp:
  assumes "\<forall>x \<in> set xs. CHR ''&'' \<notin> set x" "xs \<noteq> []"
  shows "splitOn CHR ''&'' (joinAmp xs) = xs"
  using assms
  by (induction xs rule: joinAmp.induct) (simp_all add: splitOn_append splitOn_single)


lemma parseQuery_toString: "parseQuery (params_toString ps) = Some ps"
proof (cases "ps = []")
  case True
  then show ?thesis by (simp add: parseQuery_def params_toString_def)
next
  case False
  define xs where "xs = map (\<lambda>(n, v). urlencoded n @ CHR ''='' # urlencoded v) ps"
  have amp: "\<forall>x \<in> set xs. CHR ''&'' \<notin> set x"
    using urlencoded_reserved by (auto simp: xs_def reserved_def)
  have ne: "\<forall>x \<in> set xs. x \<noteq> []" by (auto simp: xs_def)
  have "xs \<noteq> []" using False by (simp add: xs_def)
  with amp have "splitOn CHR ''&'' (joinAmp xs) = xs" by (rule splitOn_joinAmp)
  moreover have "filter (\<lambda>p. p \<noteq> []) xs = xs" using ne by (simp add: filter_id_conv)
  moreover have "sequence (map parsePair xs) = Some ps"
    unfolding xs_def by (induction ps) (auto simp: parsePair_urlencoded)
  ultimately show ?thesis by (simp add: parseQuery_def params_toString_def xs_def)
qed

lemma joinAmp_reserved:
  "\<forall>x \<in> set xs. c \<notin> set x \<Longrightarrow> c \<noteq> CHR ''&'' \<Longrightarrow> c \<notin> set (joinAmp xs)"
  by (induction xs rule: joinAmp.induct) auto

lemma toString_reserved:
  assumes "c = CHR ''#'' \<or> c = CHR ''?''"
  shows "c \<notin> set (params_toString ps)"
proof -
  have "\<forall>x \<in> set (map (\<lambda>(n, v). urlencoded n @ CHR ''='' # urlencoded v) ps). c \<notin> set x"
    using assms urlencoded_reserved by (auto simp: reserved_def)
  then show ?thesis unfolding params_toString_def
    using assms by (intro joinAmp_reserved) auto
qed

lemma searchParams_query:
  assumes "CHR ''#'' \<notin> set q"
  shows "searchParams (''/hanja-api/wallpaper?'' @ q) = parseQuery q"
proof -
  have tw: "takeWhile (\<lambda>c. c \<noteq> CHR ''#'') (''/hanja-api/wallpaper?'' @ q) = ''/hanja-api/wallpaper?'' @ q"
    using assms by (auto simp: takeWhile_eq_all_conv)
  show ?thesis unfolding searchParams_def tw by simp
qed

lemma searchParams_buildApiUrl:
  "searchParams (buildApiUrl st outputType useCurrentId) = Some (buildApiParams st outputType useCurrentId)"
  unfolding buildApiUrl_def
  by (subst searchParams_query) (simp_all add: toString_reserved parseQuery_toString)

section \<open>The search for the file name\<close>

lemma firstDown_None_iff: "firstDown n f = None \<longleftrightarrow> (\<forall>k. 1 \<le> k \<and> k \<le> n \<longrightarrow> f k = None)"
proof (induction n)
  case 0
  then show ?case by simp
next
  case (Suc n)
  show ?case
  proof (cases "f (Suc n)")
    case None
    then show ?thesis using Suc by (auto simp: le_Suc_eq)
  next
    case (Some a)
    then show ?thesis by auto
  qed
qed

lemma firstDown_SomeD: "firstDown n f = Some x \<Longrightarrow> \<exists>k. 1 \<le> k \<and> k \<le> n \<and> f k = Some x"
proof (induction n)
  case 0
  then show ?case by simp
next
  case (Suc n)
  then show ?case by (cases "f (Suc n)") (auto simp: le_Suc_eq)
qed

lemma firstDown_at:
  assumes "1 \<le> k" "k \<le> n" "f k = Some x" "\<forall>j. k < j \<and> j \<le> n \<longrightarrow> f j = None"
  shows "firstDown n f = Some x"
  using assms
proof (induction n)
  case 0
  then show ?case by simp
next
  case (Suc n)
  show ?case
  proof (cases "k = Suc n")
    case True
    then show ?thesis using Suc.prems by simp
  next
    case False
    then have "k \<le> n" using Suc.prems by simp
    moreover have "f (Suc n) = None" using Suc.prems False by simp
    ultimately show ?thesis using Suc by simp
  qed
qed

lemma matchHere_lits:
  "matchHere (map Lit l @ r) s caps =
     (if take (length l) s = l then matchHere r (drop (length l) s) caps else None)"
proof (induction l arbitrary: s)
  case Nil
  then show ?case by simp
next
  case (Cons a l)
  then show ?case by (cases s) auto
qed

lemma class_facts:
  "isDigit c \<Longrightarrow> isWord c" "isWord CHR ''_''" "\<not> isWord CHR ''.''" "\<not> isDigit CHR ''.''"
  "\<not> isDigit CHR ''_''"
  by (auto simp: isDigit_def isWord_def)

lemma takeWhile_run:
  assumes "list_all P xs" "\<not> P y"
  shows "takeWhile P (xs @ y # r) = xs"
  using assms by (induction xs) auto

lemma take_takeWhile_all:
  assumes "k \<le> length (takeWhile P s)"
  shows "list_all P (take k s)"
proof -
  have "take k s = take k (takeWhile P s)"
    using assms by (metis takeWhile_dropWhile_id take_append append_Nil2 diff_is_0_eq take_0)
  moreover have "list_all P (takeWhile P s)"
    by (simp add: list_all_iff) (meson set_takeWhileD)
  ultimately show ?thesis
    by (metis list_all_iff in_set_takeD)
qed


lemma inClass_eq: "inClass Digit = isDigit" "inClass Word = isWord"
  by (simp_all add: fun_eq_iff)

lemma matchHere_lits_end:
  "matchHere (map Lit l) s caps = (if take (length l) s = l then Some caps else None)"
  using matchHere_lits [of l "[]" s caps] by simp

lemma matchHere_digits:
  assumes l: "l = x # l'" and x: "\<not> isDigit x"
  shows "matchHere (GroupPlus Digit # map Lit l) s caps = Some c \<longleftrightarrow>
         (\<exists>ds post. s = ds @ l @ post \<and> ds \<noteq> [] \<and> list_all isDigit ds \<and> c = caps @ [ds])"
    (is "?L \<longleftrightarrow> ?R")
proof -
  define n where "n = length (takeWhile isDigit s)"
  define f where "f = (\<lambda>k. if take (length l) (drop k s) = l then Some (caps @ [take k s]) else None)"
  have m: "matchHere (GroupPlus Digit # map Lit l) s caps = firstDown n f"
    by (simp add: matchHere_lits_end n_def f_def inClass_eq)
  show ?thesis
  proof
    assume ?L
    then obtain k where k: "1 \<le> k" "k \<le> n" "f k = Some c"
      using firstDown_SomeD [of n f c] m by auto
    from k(3) have t: "take (length l) (drop k s) = l" and c: "c = caps @ [take k s]"
      by (auto simp: f_def split: if_splits)
    have "s = take k s @ take (length l) (drop k s) @ drop (length l) (drop k s)"
      by (simp only: append_take_drop_id)
    then have "s = take k s @ l @ drop (length l) (drop k s)" using t by simp
    moreover have "n \<le> length s" unfolding n_def by (rule length_takeWhile_le)
    then have "take k s \<noteq> []" using k by auto
    moreover have "list_all isDigit (take k s)"
      using k(2) unfolding n_def by (rule take_takeWhile_all)
    ultimately show ?R using c by blast
  next
    assume ?R
    then obtain ds post where d: "s = ds @ l @ post" "ds \<noteq> []" "list_all isDigit ds" "c = caps @ [ds]"
      by blast
    have "takeWhile isDigit s = ds"
      unfolding d(1) l using d(3) x by (simp add: takeWhile_run)
    then have n: "n = length ds" by (simp add: n_def)
    have "f n = Some c" by (simp add: f_def n d)
    moreover have "1 \<le> n" using d(2) n by (cases ds) auto
    ultimately have "firstDown n f = Some c" by (intro firstDown_at [of n]) auto
    then show ?L by (simp only: m)
  qed
qed

lemma matchHere_underscore_None:
  assumes "s = [] \<or> hd s \<noteq> CHR ''_''"
  shows "matchHere (Lit CHR ''_'' # r) s caps = None"
  using assms by (cases s) auto

lemma matchHere_word_digits:
  assumes l: "l = x # l'" and x: "\<not> isWord x"
  shows "matchHere (Plus Word # Lit CHR ''_'' # GroupPlus Digit # map Lit l) s caps = Some c \<longleftrightarrow>
         (\<exists>w ds post. s = w @ CHR ''_'' # ds @ l @ post \<and> w \<noteq> [] \<and> list_all isWord w \<and>
                       ds \<noteq> [] \<and> list_all isDigit ds \<and> c = caps @ [ds])"
    (is "?L \<longleftrightarrow> ?R")
proof -
  have xd: "\<not> isDigit x" using x class_facts(1) by blast
  have xu: "x \<noteq> CHR ''_''" using x class_facts(2) by blast
  define n where "n = length (takeWhile isWord s)"
  define f where "f = (\<lambda>k. matchHere (Lit CHR ''_'' # GroupPlus Digit # map Lit l) (drop k s) caps)"
  have m: "matchHere (Plus Word # Lit CHR ''_'' # GroupPlus Digit # map Lit l) s caps = firstDown n f"
    by (simp add: n_def f_def inClass_eq)
  have step: "matchHere (Lit CHR ''_'' # GroupPlus Digit # map Lit l) (CHR ''_'' # t) caps =
              matchHere (GroupPlus Digit # map Lit l) t caps" for t
    by simp
  show ?thesis
  proof
    assume ?L
    then obtain k where k: "1 \<le> k" "k \<le> n" "f k = Some c"
      using firstDown_SomeD [of n f c] m by auto
    from k(3) obtain t where t: "drop k s = CHR ''_'' # t"
      unfolding f_def by (cases "drop k s") (auto split: if_splits)
    with k(3) have "matchHere (GroupPlus Digit # map Lit l) t caps = Some c"
      unfolding f_def by (simp only: step)
    then obtain ds post where d: "t = ds @ l @ post" "ds \<noteq> []" "list_all isDigit ds" "c = caps @ [ds]"
      using matchHere_digits [OF l xd] by blast
    have "s = take k s @ drop k s" by simp
    then have "s = take k s @ CHR ''_'' # ds @ l @ post" using t d(1) by simp
    moreover have "n \<le> length s" unfolding n_def by (rule length_takeWhile_le)
    then have "take k s \<noteq> []" using k by auto
    moreover have "list_all isWord (take k s)"
      using k(2) unfolding n_def by (rule take_takeWhile_all)
    ultimately show ?R using d by blast
  next
    assume ?R
    then obtain w ds post where d: "s = w @ CHR ''_'' # ds @ l @ post" "w \<noteq> []" "list_all isWord w"
      "ds \<noteq> []" "list_all isDigit ds" "c = caps @ [ds]"
      by blast
    have "list_all isWord (w @ CHR ''_'' # ds)"
      using d(3) d(5) class_facts(1,2) by (auto simp: list_all_iff)
    then have "takeWhile isWord ((w @ CHR ''_'' # ds) @ x # l' @ post) = w @ CHR ''_'' # ds"
      using x by (rule takeWhile_run)
    then have n: "n = length w + 1 + length ds" by (simp add: n_def d(1) l)
    have "matchHere (GroupPlus Digit # map Lit l) (ds @ l @ post) caps = Some c"
      using matchHere_digits [OF l xd] d by blast
    then have fk: "f (length w) = Some c" by (simp add: f_def d(1))
    have later: "f j = None" if j: "length w < j" "j \<le> n" for j
    proof -
      define i where "i = j - length w - 1"
      have je: "j = length w + Suc i" using j by (simp add: i_def)
      have "drop j s = drop i (ds @ x # l' @ post)"
        unfolding je d(1) l by simp
      moreover have "i \<le> length ds" using j n by (simp add: i_def)
      ultimately have dj: "drop j s = drop i ds @ x # l' @ post" by simp
      have "hd (drop j s) \<noteq> CHR ''_''"
      proof (cases "drop i ds")
        case Nil
        then show ?thesis using dj xu by simp
      next
        case (Cons y ys)
        then have "y \<in> set ds" by (metis in_set_dropD list.set_intros(1))
        then have "isDigit y" using d(5) by (simp add: list_all_iff)
        then have "y \<noteq> CHR ''_''" using class_facts(5) by blast
        then show ?thesis using dj Cons by simp
      qed
      then show ?thesis unfolding f_def by (intro matchHere_underscore_None) simp
    qed
    have "1 \<le> length w" using d(2) by (cases w) auto
    moreover have "length w \<le> n" using n by simp
    ultimately have "firstDown n f = Some c"
      using fk later by (intro firstDown_at [of "length w"]) auto
    then show ?L by (simp only: m)
  qed
qed


lemma matchHere_filenamePattern:
  "matchHere filenamePattern s [] = Some c \<longleftrightarrow>
     (\<exists>w ds post. matchesFilename s [] w ds post \<and> c = [ds])"
    (is "?L \<longleftrightarrow> ?R")
proof -
  define p where "p = ''filename=wallpaper_''"
  define l where "l = ''.svg''"
  have l: "l = CHR ''.'' # ''svg''" by (simp add: l_def)
  have pat: "filenamePattern = map Lit p @ (Plus Word # Lit CHR ''_'' # GroupPlus Digit # map Lit l)"
    by (simp add: filenamePattern_def p_def l_def)
  have m: "matchHere filenamePattern s [] =
      (if take (length p) s = p
       then matchHere (Plus Word # Lit CHR ''_'' # GroupPlus Digit # map Lit l) (drop (length p) s) []
       else None)"
    unfolding pat by (rule matchHere_lits)
  have mf: "matchesFilename s [] w ds post \<longleftrightarrow>
      s = p @ w @ CHR ''_'' # ds @ l @ post \<and>
      w \<noteq> [] \<and> list_all isWord w \<and> ds \<noteq> [] \<and> list_all isDigit ds" for w ds post
    by (simp add: matchesFilename_def p_def l_def)
  note wd = matchHere_word_digits [OF l class_facts(3), of "drop (length p) s" "[]" c]
  show ?thesis
  proof
    assume ?L
    then have t: "take (length p) s = p"
      and "matchHere (Plus Word # Lit CHR ''_'' # GroupPlus Digit # map Lit l) (drop (length p) s) [] = Some c"
      unfolding m by (auto split: if_splits)
    then obtain w ds post where d: "drop (length p) s = w @ CHR ''_'' # ds @ l @ post"
      "w \<noteq> []" "list_all isWord w" "ds \<noteq> []" "list_all isDigit ds" "c = [ds]"
      using wd by auto
    have "s = take (length p) s @ drop (length p) s" by simp
    then have "s = p @ w @ CHR ''_'' # ds @ l @ post" using t d(1) by simp
    then show ?R using d mf by blast
  next
    assume ?R
    then obtain w ds post where d: "s = p @ w @ CHR ''_'' # ds @ l @ post"
      "w \<noteq> []" "list_all isWord w" "ds \<noteq> []" "list_all isDigit ds" "c = [ds]"
      using mf by blast
    have "take (length p) s = p" "drop (length p) s = w @ CHR ''_'' # ds @ l @ post"
      by (simp_all add: d(1))
    moreover have "matchHere (Plus Word # Lit CHR ''_'' # GroupPlus Digit # map Lit l)
        (w @ CHR ''_'' # ds @ l @ post) [] = Some c"
      using matchHere_word_digits [OF l class_facts(3), of "w @ CHR ''_'' # ds @ l @ post" "[]" c] d
      by auto
    ultimately show ?L unfolding m by simp
  qed
qed


lemma regexSearch_None_iff:
  "regexSearch pat s = None \<longleftrightarrow> (\<forall>i<Suc (length s). matchHere pat (drop i s) [] = None)"
proof (induction s)
  case Nil
  then show ?case by simp
next
  case (Cons x xs)
  show ?case
  proof (cases "matchHere pat (x # xs) []")
    case (Some a)
    then show ?thesis by (auto intro: exI [of _ 0])
  next
    case None
    have "(\<forall>i<Suc (length (x # xs)). matchHere pat (drop i (x # xs)) [] = None) \<longleftrightarrow>
          (\<forall>i<Suc (length xs). matchHere pat (drop i xs) [] = None)"
      using None by (subst All_less_Suc2) simp
    with None Cons show ?thesis by simp
  qed
qed

lemma regexSearch_Some_iff:
  "regexSearch pat s = Some c \<longleftrightarrow>
     (\<exists>i<Suc (length s). matchHere pat (drop i s) [] = Some c \<and>
        (\<forall>j<i. matchHere pat (drop j s) [] = None))"
proof (induction s)
  case Nil
  then show ?case by simp
next
  case (Cons x xs)
  let ?Q = "\<lambda>i. matchHere pat (drop i (x # xs)) [] = Some c \<and>
        (\<forall>j<i. matchHere pat (drop j (x # xs)) [] = None)"
  have split: "(\<exists>i<Suc (length (x # xs)). ?Q i) \<longleftrightarrow> ?Q 0 \<or> (\<exists>i<Suc (length xs). ?Q (Suc i))"
    by (subst Ex_less_Suc2) simp
  show ?case
  proof (cases "matchHere pat (x # xs) []")
    case (Some a)
    have "\<not> ?Q (Suc i)" for i using Some by (auto intro: exI [of _ 0])
    then have "(\<exists>i<Suc (length (x # xs)). ?Q i) \<longleftrightarrow> a = c"
      unfolding split using Some by auto
    with Some show ?thesis by simp
  next
    case None
    have "?Q (Suc i) \<longleftrightarrow> matchHere pat (drop i xs) [] = Some c \<and>
        (\<forall>j<i. matchHere pat (drop j xs) [] = None)" for i
      using None by (subst All_less_Suc2) simp
    then have "(\<exists>i<Suc (length (x # xs)). ?Q i) \<longleftrightarrow>
       (\<exists>i<Suc (length xs). matchHere pat (drop i xs) [] = Some c \<and>
        (\<forall>j<i. matchHere pat (drop j xs) [] = None))"
      unfolding split using None by simp
    with None Cons show ?thesis by simp
  qed
qed

lemma matchesFilename_shift:
  "matchesFilename h pre w ds post \<longleftrightarrow>
     take (length pre) h = pre \<and> length pre \<le> length h \<and> matchesFilename (drop (length pre) h) [] w ds post"
proof -
  define r where "r = ''filename=wallpaper_'' @ w @ ''_'' @ ds @ ''.svg'' @ post"
  have "h = pre @ r \<longleftrightarrow> take (length pre) h = pre \<and> length pre \<le> length h \<and> drop (length pre) h = r"
    by (metis append_eq_conv_conj append_take_drop_id length_append le_add1)
  then show ?thesis by (simp add: matchesFilename_def r_def)
qed

lemma matchesFilename_at:
  "matchesFilename h pre w ds post \<Longrightarrow> matchHere filenamePattern (drop (length pre) h) [] = Some [ds]"
  using matchesFilename_shift [of h pre w ds post] matchHere_filenamePattern by blast

lemma regexSearch_filename_None:
  "regexSearch filenamePattern h = None \<longleftrightarrow> \<not> (\<exists>pre w ds post. matchesFilename h pre w ds post)"
proof
  assume n: "regexSearch filenamePattern h = None"
  show "\<not> (\<exists>pre w ds post. matchesFilename h pre w ds post)"
  proof
    assume "\<exists>pre w ds post. matchesFilename h pre w ds post"
    then obtain pre w ds post where m: "matchesFilename h pre w ds post" by blast
    then have "length pre < Suc (length h)"
      using matchesFilename_shift [of h pre w ds post] by simp
    with n have "matchHere filenamePattern (drop (length pre) h) [] = None"
      unfolding regexSearch_None_iff by blast
    with matchesFilename_at [OF m] show False by simp
  qed
next
  assume a: "\<not> (\<exists>pre w ds post. matchesFilename h pre w ds post)"
  have "matchHere filenamePattern (drop i h) [] = None" if "i < Suc (length h)" for i
  proof (rule ccontr)
    assume "matchHere filenamePattern (drop i h) [] \<noteq> None"
    then obtain c where "matchHere filenamePattern (drop i h) [] = Some c" by auto
    then obtain w ds post where "matchesFilename (drop i h) [] w ds post"
      using matchHere_filenamePattern by blast
    moreover have "length (take i h) = i" using that by simp
    ultimately have "matchesFilename h (take i h) w ds post"
      using matchesFilename_shift [of h "take i h" w ds post] that by simp
    with a show False by blast
  qed
  then show "regexSearch filenamePattern h = None" unfolding regexSearch_None_iff by blast
qed

lemma regexSearch_filename_Some:
  assumes "regexSearch filenamePattern h = Some c"
  shows "\<exists>pre w ds post. matchesFilename h pre w ds post \<and> c = [ds] \<and>
           (\<forall>pre' w' ds' post'. matchesFilename h pre' w' ds' post' \<longrightarrow> length pre \<le> length pre')"
proof -
  from assms obtain i where i: "i < Suc (length h)" "matchHere filenamePattern (drop i h) [] = Some c"
    "\<forall>j<i. matchHere filenamePattern (drop j h) [] = None"
    unfolding regexSearch_Some_iff by blast
  from i(2) obtain w ds post where m: "matchesFilename (drop i h) [] w ds post" "c = [ds]"
    using matchHere_filenamePattern by blast
  have len: "length (take i h) = i" using i(1) by simp
  then have "matchesFilename h (take i h) w ds post"
    using matchesFilename_shift [of h "take i h" w ds post] m(1) i(1) by simp
  moreover have "length (take i h) \<le> length pre'" if "matchesFilename h pre' w' ds' post'"
    for pre' w' ds' post'
  proof (rule ccontr)
    assume "\<not> length (take i h) \<le> length pre'"
    then have "length pre' < i" using len by simp
    with i(3) have "matchHere filenamePattern (drop (length pre') h) [] = None" by blast
    with matchesFilename_at [OF that] show False by simp
  qed
  ultimately show ?thesis using m(2) by blast
qed




section \<open>Numbers\<close>



lemma roundToDouble_exact_below: "n < 2 ^ 53 \<Longrightarrow> roundToDouble n = Num n"
  by (simp add: roundToDouble_def)

lemma roundToDouble_exact_at: "roundToDouble (2 ^ 53) = Num (2 ^ 53)"
  by code_simp

lemma roundToDouble_exact: "n \<le> 2 ^ 53 \<Longrightarrow> roundToDouble n = Num n"
  using roundToDouble_exact_below [of n] roundToDouble_exact_at by (cases "n = 2 ^ 53") simp_all



lemma digit_not_space: "isDigit c \<Longrightarrow> \<not> isWhiteSpace c \<and> c \<noteq> CHR ''-'' \<and> c \<noteq> CHR ''+''"
  by (auto simp: isDigit_def isWhiteSpace_def)

lemma parseInt10_digits:
  assumes "ds \<noteq> []" "list_all isDigit ds"
  shows "parseInt10 ds = roundToDouble (digitsValue ds)"
proof -
  obtain d r where ds: "ds = d # r" using assms(1) by (cases ds) auto
  then have d: "isDigit d" using assms(2) by simp
  have "takeWhile isDigit ds = ds" using assms(2) by (simp add: list_all_iff)
  then show ?thesis
    using digit_not_space [OF d] assms(1) by (simp add: parseInt10_def ds)
qed






section \<open>The URL builder\<close>

lemma fetchPreview_start_fetched:
  "fetched (fetchPreview_start st) = fetched st @ [buildApiUrl st ''svg'' False]"
  by (simp add: fetchPreview_start_def showLoading_def Let_def buildApiUrl_def buildApiParams_def)

lemma urlencoded_names:
  "urlencoded ''output_type'' = ''output_type''"
  "urlencoded ''character_list'' = ''character_list''"
  "urlencoded ''iphone_model'' = ''iphone_model''"
  "urlencoded ''character_id'' = ''character_id''"
  "urlencoded ''svg'' = ''svg''"
  "urlencoded ''png'' = ''png''"
  by code_simp+

lemma examplePage_simps:
  "currentCharacterId (examplePage v f) = v"
  "characterSetSelect_value (examplePage v f) = ''hanja''"
  "iphoneModelSelect_value (examplePage v f) = ''iphone 15''"
  "characterIdInput_value (examplePage v f) = f"
  "fetched (examplePage v f) = []"
  "clicked (examplePage v f) = []"
  by (simp_all add: examplePage_def)

lemma trim_examples: "trim ''  '' = []" "trim '' 42 '' = ''42''" "trim ''42'' = ''42''"
  by code_simp+

lemma downloadPng_clicked:
  "clicked (downloadPng st) = clicked st @ [(buildApiUrl st ''png'' True, downloadName st)]"
  by (simp add: downloadPng_def Let_def)

lemma toString_small: "numberToString 7 = ''7''" "numberToString 0 = ''0''"
  by code_simp+

lemma roundToDouble_examples:
  "roundToDouble 9007199254740993 = Num 9007199254740992"
  "roundToDouble 9007199254740995 = Num 9007199254740996"
  by code_simp+

lemma roundToDouble_limit:
  "roundToDouble (2 ^ 1024 - 2 ^ 970) = Infinity"
  "roundToDouble (2 ^ 1024 - 2 ^ 970 - 1) = Num (2 ^ 1024 - 2 ^ 971)"
  by code_simp+

lemma toString_examples:
  "toString (Num 123) = ''123''"
  "toString (Num 9007199254740992) = ''9007199254740992''"
  "toString (Num 1152921504606846976) = ''1152921504606847000''"
  "toString (Num 1000000000000000000000) = ''1e+21''"
  "toString (Num 1180591620717411303424) = ''1.1805916207174113e+21''"
  by code_simp+

subsection \<open>The pieces of the preview fetch\<close>

lemma buildApiUrl_cong:
  "buildApiUrl (st\<lparr>previewContainer_innerHTML := h\<rparr>) k u = buildApiUrl st k u"
  by (simp add: buildApiUrl_def buildApiParams_def Let_def)

lemma fetchPreview_start_eq:
  "fetchPreview_start st =
     st\<lparr>previewContainer_innerHTML := loadingIndicator,
        fetched := fetched st @ [buildApiUrl st ''svg'' False]\<rparr>"
  by (simp add: fetchPreview_start_def showLoading_def Let_def buildApiUrl_cong)

lemma regexSearch_filename_Nil: "regexSearch filenamePattern [] = None"
  by (simp add: filenamePattern_def)

lemma extractCharacterId_fields:
  "previewContainer_innerHTML (extractCharacterId resp st) = previewContainer_innerHTML st"
  "characterSetSelect_value (extractCharacterId resp st) = characterSetSelect_value st"
  "iphoneModelSelect_value (extractCharacterId resp st) = iphoneModelSelect_value st"
  "characterIdInput_value (extractCharacterId resp st) = characterIdInput_value st"
  "fetched (extractCharacterId resp st) = fetched st"
  "clicked (extractCharacterId resp st) = clicked st"
  by (simp_all add: extractCharacterId_def split: option.splits)

lemma extractCharacterId_None:
  "response_contentDisposition resp = None \<Longrightarrow> extractCharacterId resp st = st"
  by (simp add: extractCharacterId_def)

lemma extractCharacterId_no_match:
  "response_contentDisposition resp = Some h \<Longrightarrow> regexSearch filenamePattern h = None \<Longrightarrow>
   extractCharacterId resp st = st"
  by (simp add: extractCharacterId_def)

lemma extractCharacterId_match:
  assumes "response_contentDisposition resp = Some h" "regexSearch filenamePattern h = Some [ds]"
  shows "extractCharacterId resp st = st\<lparr>currentCharacterId := parseInt10 ds\<rparr>"
proof -
  have "h \<noteq> []" using assms(2) regexSearch_filename_Nil by auto
  then show ?thesis using assms by (simp add: extractCharacterId_def)
qed

lemma fetchPreview_ok:
  assumes "response_ok resp" "response_text resp = BodyText t"
  shows "fetchPreview (Resolved resp) st =
         Inr (extractCharacterId resp ((fetchPreview_start st)\<lparr>previewContainer_innerHTML := t\<rparr>))"
  using assms
  by (simp add: fetchPreview_def fetchPreview_onFetch_def tryFetched_def fetchPreview_onText_def
      tryText_def)

lemma fetchPreview_not_ok:
  assumes "\<not> response_ok resp"
  shows "fetchPreview (Resolved resp) st = Inr (catch (fetchPreview_start st))"
  using assms by (simp add: fetchPreview_def fetchPreview_onFetch_def tryFetched_def)

lemma indicators_differ: "errorIndicator \<noteq> loadingIndicator"
  by (simp add: errorIndicator_def loadingIndicator_def)

lemma exampleResponse_simps:
  "response_status (exampleResponse n h) = n"
  "response_contentDisposition (exampleResponse n h) = h"
  "response_text (exampleResponse n h) = BodyText ''<svg/>''"
  by (simp_all add: exampleResponse_def)

lemma exampleResponse_ok: "response_ok (exampleResponse 200 h)" "\<not> response_ok (exampleResponse 500 h)"
  by (simp_all add: response_ok_def exampleResponse_def)

lemma fetchPreview_example_123:
  "fetchPreview (Resolved (exampleResponse 200 (Some ''attachment; filename=wallpaper_hanja_123.svg'')))
     (examplePage (Num 7) []) =
   Inr ((examplePage (Num 7) [])
         \<lparr>currentCharacterId := Num 123, previewContainer_innerHTML := ''<svg/>'',
          fetched := [''/hanja-api/wallpaper?output_type=svg&character_list=hanja&iphone_model=iphone+15'']\<rparr>)"
  by code_simp

lemma fetchPreview_example_other:
  "fetchPreview (Resolved (exampleResponse 200 (Some ''attachment; filename=wallpaper_other_5.svg'')))
     (examplePage Null []) =
   Inr ((examplePage Null [])
         \<lparr>currentCharacterId := Num 5, previewContainer_innerHTML := ''<svg/>'',
          fetched := [''/hanja-api/wallpaper?output_type=svg&character_list=hanja&iphone_model=iphone+15'']\<rparr>)"
  by code_simp

lemma buildApiParams_character_id:
  "getAll (buildApiParams st outputType useCurrentId) ''character_id'' =
     (if trim (characterIdInput_value st) \<noteq> [] then [trim (characterIdInput_value st)]
      else if useCurrentId \<and> currentCharacterId st \<noteq> Null then [toString (currentCharacterId st)]
      else [])"
  by (simp add: buildApiParams_def Let_def params_set_def getAll_def)









lemma parseInt10_exact:
  assumes "ds \<noteq> []" "list_all isDigit ds" "digitsValue ds \<le> 2 ^ 53"
  shows "parseInt10 ds = Num (digitsValue ds)"
  using parseInt10_digits [OF assms(1,2)] roundToDouble_exact [OF assms(3)] by simp


lemma extractCharacterId_header:
  assumes "response_contentDisposition resp = Some h"
  shows "if \<exists>pre w ds post. matchesFilename h pre w ds post
         then \<exists>pre w ds post.
                matchesFilename h pre w ds post \<and>
                (\<forall>pre' w' ds' post'.
                   matchesFilename h pre' w' ds' post' \<longrightarrow> length pre \<le> length pre') \<and>
                extractCharacterId resp st = st\<lparr>currentCharacterId := parseInt10 ds\<rparr>
         else extractCharacterId resp st = st"
proof (cases "regexSearch filenamePattern h")
  case None
  then have "\<not> (\<exists>pre w ds post. matchesFilename h pre w ds post)"
    using regexSearch_filename_None [of h] by blast
  then show ?thesis using assms None by (simp add: extractCharacterId_no_match)
next
  case (Some c)
  from regexSearch_filename_Some [OF this] obtain pre w ds post where
    m: "matchesFilename h pre w ds post" "c = [ds]"
    "\<forall>pre' w' ds' post'. matchesFilename h pre' w' ds' post' \<longrightarrow> length pre \<le> length pre'"
    by blast
  have "extractCharacterId resp st = st\<lparr>currentCharacterId := parseInt10 ds\<rparr>"
    using extractCharacterId_match [of resp h ds st] assms Some m(2) by simp
  with m have "\<exists>pre w ds post.
                matchesFilename h pre w ds post \<and>
                (\<forall>pre' w' ds' post'.
                   matchesFilename h pre' w' ds' post' \<longrightarrow> length pre \<le> length pre') \<and>
                extractCharacterId resp st = st\<lparr>currentCharacterId := parseInt10 ds\<rparr>"
    by blast
  moreover have "\<exists>pre w ds post. matchesFilename h pre w ds post" using m(1) by blast
  ultimately show ?thesis by simp
qed

lemma fetchPreview_example_rounded:
  "fetchPreview
     (Resolved (exampleResponse 200 (Some ''attachment; filename=wallpaper_hanja_9007199254740993.svg'')))
     (examplePage (Num 7) []) =
   Inr ((examplePage (Num 7) [])
         \<lparr>currentCharacterId := Num 9007199254740992, previewContainer_innerHTML := ''<svg/>'',
          fetched := [''/hanja-api/wallpaper?output_type=svg&character_list=hanja&iphone_model=iphone+15'']\<rparr>)"
  by code_simp

lemma fetchPreview_example_form_data:
  "fetchPreview
     (Resolved (exampleResponse 200 (Some ''form-data; name=f; filename=wallpaper_x_5.svg'')))
     (examplePage Null []) =
   Inr ((examplePage Null [])
         \<lparr>currentCharacterId := Num 5, previewContainer_innerHTML := ''<svg/>'',
          fetched := [''/hanja-api/wallpaper?output_type=svg&character_list=hanja&iphone_model=iphone+15'']\<rparr>)"
  by code_simp

section \<open>The claims about the URL\<close>

text \<open>
  C1: whatever the character set, the device model and the stored last-seen id, when the
  id field is blank after trimming, the URL that the preview fetch requests is the path
  followed by \<open>output_type=svg\<close>, \<open>character_list\<close> and \<open>iphone_model\<close> with the two
  values; read back, it has exactly these three parameters, and no \<open>character_id\<close>.
\<close>

theorem preview_url_blank_id:
  assumes "trim (characterIdInput_value st) = []"
  shows "last (fetched (fetchPreview_start st)) = buildApiUrl st ''svg'' False \<and>
         buildApiUrl st ''svg'' False =
           ''/hanja-api/wallpaper?output_type=svg&character_list='' @
           urlencoded (characterSetSelect_value st) @ ''&iphone_model='' @
           urlencoded (iphoneModelSelect_value st) \<and>
         searchParams (buildApiUrl st ''svg'' False) =
           Some [(''output_type'', ''svg''),
                 (''character_list'', characterSetSelect_value st),
                 (''iphone_model'', iphoneModelSelect_value st)] \<and>
         getAll (buildApiParams st ''svg'' False) ''character_id'' = []"
proof -
  have p: "buildApiParams st ''svg'' False =
      [(''output_type'', ''svg''), (''character_list'', characterSetSelect_value st),
       (''iphone_model'', iphoneModelSelect_value st)]"
    using assms by (simp add: buildApiParams_def)
  have "buildApiUrl st ''svg'' False =
           ''/hanja-api/wallpaper?output_type=svg&character_list='' @
           urlencoded (characterSetSelect_value st) @ ''&iphone_model='' @
           urlencoded (iphoneModelSelect_value st)"
    unfolding buildApiUrl_def p params_toString_def by (simp add: urlencoded_names)
  moreover have "searchParams (buildApiUrl st ''svg'' False) =
           Some [(''output_type'', ''svg''),
                 (''character_list'', characterSetSelect_value st),
                 (''iphone_model'', iphoneModelSelect_value st)]"
    unfolding searchParams_buildApiUrl p ..
  moreover have "getAll (buildApiParams st ''svg'' False) ''character_id'' = []"
    unfolding p by (simp add: getAll_def)
  ultimately show ?thesis by (simp add: fetchPreview_start_fetched)
qed

theorem preview_url_blank_id_witness:
  "trim (characterIdInput_value (examplePage (Num 9) ''  '')) = [] \<and>
   last (fetched (fetchPreview_start (examplePage (Num 9) ''  ''))) =
     ''/hanja-api/wallpaper?output_type=svg&character_list=hanja&iphone_model=iphone+15'' \<and>
   searchParams (buildApiUrl (examplePage (Num 9) ''  '') ''svg'' False) =
     Some [(''output_type'', ''svg''), (''character_list'', ''hanja''),
           (''iphone_model'', ''iphone 15'')]"
proof -
  have t: "trim (characterIdInput_value (examplePage (Num 9) ''  '')) = []"
    by (simp add: examplePage_simps trim_examples)
  have e: "urlencoded ''hanja'' = ''hanja''" "urlencoded ''iphone 15'' = ''iphone+15''"
    by code_simp+
  note c = preview_url_blank_id [OF t]
  show ?thesis
  proof (intro conjI)
    show "trim (characterIdInput_value (examplePage (Num 9) ''  '')) = []" by (rule t)
    show "last (fetched (fetchPreview_start (examplePage (Num 9) ''  ''))) =
      ''/hanja-api/wallpaper?output_type=svg&character_list=hanja&iphone_model=iphone+15''"
      using c [THEN conjunct1] c [THEN conjunct2, THEN conjunct1]
      by (simp add: examplePage_simps e)
    show "searchParams (buildApiUrl (examplePage (Num 9) ''  '') ''svg'' False) =
      Some [(''output_type'', ''svg''), (''character_list'', ''hanja''),
            (''iphone_model'', ''iphone 15'')]"
      using c [THEN conjunct2, THEN conjunct2, THEN conjunct1]
      by (simp add: examplePage_simps)
  qed
qed

text \<open>
  C2: when the id field is not blank after trimming, every URL the builder makes (for either
  output kind, with or without reuse of the last-seen id, so both the one the preview fetch
  requests and the one the download link points to) carries the trimmed value as its one
  \<open>character_id\<close> parameter, whatever last-seen id is stored.
\<close>

theorem id_field_in_url:
  assumes "trim (characterIdInput_value st) \<noteq> []"
  shows "searchParams (buildApiUrl st outputType useCurrentId) =
           Some [(''output_type'', outputType),
                 (''character_list'', characterSetSelect_value st),
                 (''iphone_model'', iphoneModelSelect_value st),
                 (''character_id'', trim (characterIdInput_value st))] \<and>
         getAll (buildApiParams st outputType useCurrentId) ''character_id'' =
           [trim (characterIdInput_value st)] \<and>
         last (fetched (fetchPreview_start st)) = buildApiUrl st ''svg'' False \<and>
         fst (last (clicked (downloadPng st))) = buildApiUrl st ''png'' True"
proof -
  have p: "buildApiParams st outputType useCurrentId =
      [(''output_type'', outputType), (''character_list'', characterSetSelect_value st),
       (''iphone_model'', iphoneModelSelect_value st),
       (''character_id'', trim (characterIdInput_value st))]"
    using assms by (simp add: buildApiParams_def params_set_def)
  show ?thesis
    unfolding searchParams_buildApiUrl p
    by (simp add: getAll_def fetchPreview_start_fetched downloadPng_clicked)
qed

theorem id_field_in_url_witness:
  "trim (characterIdInput_value (examplePage (Num 7) ''42'')) \<noteq> [] \<and>
   searchParams (buildApiUrl (examplePage (Num 7) ''42'') ''png'' True) =
     Some [(''output_type'', ''png''), (''character_list'', ''hanja''),
           (''iphone_model'', ''iphone 15''), (''character_id'', ''42'')] \<and>
   getAll (buildApiParams (examplePage (Num 7) ''42'') ''png'' True) ''character_id'' = [''42'']"
proof -
  have t: "trim (characterIdInput_value (examplePage (Num 7) ''42'')) \<noteq> []"
    by (simp add: examplePage_simps trim_examples)
  note c = id_field_in_url [OF t, of "''png''" True]
  show ?thesis
  proof (intro conjI)
    show "trim (characterIdInput_value (examplePage (Num 7) ''42'')) \<noteq> []" by (rule t)
    show "searchParams (buildApiUrl (examplePage (Num 7) ''42'') ''png'' True) =
     Some [(''output_type'', ''png''), (''character_list'', ''hanja''),
           (''iphone_model'', ''iphone 15''), (''character_id'', ''42'')]"
      using c [THEN conjunct1] by (simp add: examplePage_simps trim_examples)
    show "getAll (buildApiParams (examplePage (Num 7) ''42'') ''png'' True) ''character_id'' = [''42'']"
      using c [THEN conjunct2, THEN conjunct1] by (simp add: examplePage_simps trim_examples)
  qed
qed

text \<open>
  C4: when the id field is blank after trimming and the stored last-seen id is 7, the URL
  built with reuse of the last-seen id, as the download does for \<open>png\<close>, carries
  \<open>character_id=7\<close>.
\<close>

theorem reuse_last_seen_id:
  assumes "trim (characterIdInput_value st) = []" and "currentCharacterId st = Num 7"
  shows "searchParams (buildApiUrl st outputType True) =
           Some [(''output_type'', outputType),
                 (''character_list'', characterSetSelect_value st),
                 (''iphone_model'', iphoneModelSelect_value st),
                 (''character_id'', ''7'')] \<and>
         getAll (buildApiParams st outputType True) ''character_id'' = [''7''] \<and>
         fst (last (clicked (downloadPng st))) = buildApiUrl st ''png'' True"
proof -
  have p: "buildApiParams st outputType True =
      [(''output_type'', outputType), (''character_list'', characterSetSelect_value st),
       (''iphone_model'', iphoneModelSelect_value st), (''character_id'', ''7'')]"
    using assms by (simp add: buildApiParams_def params_set_def toString_small)
  show ?thesis
    unfolding searchParams_buildApiUrl p
    by (simp add: getAll_def downloadPng_clicked)
qed

theorem reuse_last_seen_id_witness:
  "trim (characterIdInput_value (examplePage (Num 7) ''  '')) = [] \<and>
   currentCharacterId (examplePage (Num 7) ''  '') = Num 7 \<and>
   fst (last (clicked (downloadPng (examplePage (Num 7) ''  '')))) =
     ''/hanja-api/wallpaper?output_type=png&character_list=hanja&iphone_model=iphone+15&character_id=7'' \<and>
   searchParams (buildApiUrl (examplePage (Num 7) ''  '') ''png'' True) =
     Some [(''output_type'', ''png''), (''character_list'', ''hanja''),
           (''iphone_model'', ''iphone 15''), (''character_id'', ''7'')]"
proof -
  have t: "trim (characterIdInput_value (examplePage (Num 7) ''  '')) = []"
    by (simp add: examplePage_simps trim_examples)
  have i: "currentCharacterId (examplePage (Num 7) ''  '') = Num 7"
    by (simp add: examplePage_simps)
  note c = reuse_last_seen_id [OF t i, of "''png''"]
  have u: "buildApiUrl (examplePage (Num 7) ''  '') ''png'' True =
     ''/hanja-api/wallpaper?output_type=png&character_list=hanja&iphone_model=iphone+15&character_id=7''"
    by code_simp
  show ?thesis
  proof (intro conjI)
    show "trim (characterIdInput_value (examplePage (Num 7) ''  '')) = []" by (rule t)
    show "currentCharacterId (examplePage (Num 7) ''  '') = Num 7" by (rule i)
    show "fst (last (clicked (downloadPng (examplePage (Num 7) ''  '')))) =
     ''/hanja-api/wallpaper?output_type=png&character_list=hanja&iphone_model=iphone+15&character_id=7''"
      using c [THEN conjunct2, THEN conjunct2] u by simp
    show "searchParams (buildApiUrl (examplePage (Num 7) ''  '') ''png'' True) =
     Some [(''output_type'', ''png''), (''character_list'', ''hanja''),
           (''iphone_model'', ''iphone 15''), (''character_id'', ''7'')]"
      using c [THEN conjunct1] by (simp add: examplePage_simps)
  qed
qed

section \<open>The claims about the preview fetch\<close>

text \<open>
  C3: a preview fetch that gets a response with a success status and a readable body ends
  with the body in the preview container and with this last-seen id: its value before the
  fetch when there is no \<^verbatim>\<open>Content-Disposition\<close> header or the header holds no file name of
  the pattern; otherwise what \<^verbatim>\<open>parseInt\<close> makes of the digits of the leftmost such file
  name, which is the number they denote in base 10 when that is at most \<open>2 ^ 53\<close>, and the
  double nearest to it beyond.
\<close>

theorem last_seen_id_after_success:
  assumes "response_ok resp" and "response_text resp = BodyText t"
  shows "\<exists>st'. fetchPreview (Resolved resp) st = Inr st' \<and>
           previewContainer_innerHTML st' = t \<and>
           (case response_contentDisposition resp of
              None \<Rightarrow> currentCharacterId st' = currentCharacterId st
            | Some h \<Rightarrow>
                if \<exists>pre w ds post. matchesFilename h pre w ds post
                then \<exists>pre w ds post.
                       matchesFilename h pre w ds post \<and>
                       (\<forall>pre' w' ds' post'.
                          matchesFilename h pre' w' ds' post' \<longrightarrow> length pre \<le> length pre') \<and>
                       currentCharacterId st' = parseInt10 ds \<and>
                       parseInt10 ds = roundToDouble (digitsValue ds) \<and>
                       (digitsValue ds \<le> 2 ^ 53 \<longrightarrow>
                          currentCharacterId st' = Num (digitsValue ds))
                else currentCharacterId st' = currentCharacterId st)"
proof -
  define st1 where "st1 = (fetchPreview_start st)\<lparr>previewContainer_innerHTML := t\<rparr>"
  have id1: "currentCharacterId st1 = currentCharacterId st"
    by (simp add: st1_def fetchPreview_start_eq)
  have r: "fetchPreview (Resolved resp) st = Inr (extractCharacterId resp st1)"
    unfolding st1_def using assms by (rule fetchPreview_ok)
  have html: "previewContainer_innerHTML (extractCharacterId resp st1) = t"
    by (simp add: extractCharacterId_fields st1_def)
  have "case response_contentDisposition resp of
              None \<Rightarrow> currentCharacterId (extractCharacterId resp st1) = currentCharacterId st
            | Some h \<Rightarrow>
                if \<exists>pre w ds post. matchesFilename h pre w ds post
                then \<exists>pre w ds post.
                       matchesFilename h pre w ds post \<and>
                       (\<forall>pre' w' ds' post'.
                          matchesFilename h pre' w' ds' post' \<longrightarrow> length pre \<le> length pre') \<and>
                       currentCharacterId (extractCharacterId resp st1) = parseInt10 ds \<and>
                       parseInt10 ds = roundToDouble (digitsValue ds) \<and>
                       (digitsValue ds \<le> 2 ^ 53 \<longrightarrow>
                          currentCharacterId (extractCharacterId resp st1) = Num (digitsValue ds))
                else currentCharacterId (extractCharacterId resp st1) = currentCharacterId st"
  proof (cases "response_contentDisposition resp")
    case None
    then show ?thesis by (simp add: extractCharacterId_None id1)
  next
    case (Some h)
    show ?thesis
    proof (cases "\<exists>pre w ds post. matchesFilename h pre w ds post")
      case False
      then have "extractCharacterId resp st1 = st1"
        using extractCharacterId_header [OF Some, of st1] by simp
      then show ?thesis using Some False id1 by simp
    next
      case True
      then obtain pre w ds post where
        m: "matchesFilename h pre w ds post"
        "\<forall>pre' w' ds' post'. matchesFilename h pre' w' ds' post' \<longrightarrow> length pre \<le> length pre'"
        "extractCharacterId resp st1 = st1\<lparr>currentCharacterId := parseInt10 ds\<rparr>"
        using extractCharacterId_header [OF Some, of st1] by auto
      have d: "ds \<noteq> []" "list_all isDigit ds" using m(1) by (simp_all add: matchesFilename_def)
      have c: "currentCharacterId (extractCharacterId resp st1) = parseInt10 ds"
        by (simp add: m(3))
      have p: "parseInt10 ds = roundToDouble (digitsValue ds)" using d by (rule parseInt10_digits)
      have x: "digitsValue ds \<le> 2 ^ 53 \<longrightarrow>
                 currentCharacterId (extractCharacterId resp st1) = Num (digitsValue ds)"
        using parseInt10_exact [OF d] c by simp
      from m(1,2) c p x have "\<exists>pre w ds post.
                       matchesFilename h pre w ds post \<and>
                       (\<forall>pre' w' ds' post'.
                          matchesFilename h pre' w' ds' post' \<longrightarrow> length pre \<le> length pre') \<and>
                       currentCharacterId (extractCharacterId resp st1) = parseInt10 ds \<and>
                       parseInt10 ds = roundToDouble (digitsValue ds) \<and>
                       (digitsValue ds \<le> 2 ^ 53 \<longrightarrow>
                          currentCharacterId (extractCharacterId resp st1) = Num (digitsValue ds))"
        by blast
      then show ?thesis using Some True by simp
    qed
  qed
  with r html show ?thesis by blast
qed

theorem last_seen_id_after_success_witness:
  "response_ok (exampleResponse 200 (Some ''attachment; filename=wallpaper_hanja_123.svg'')) \<and>
   response_text (exampleResponse 200 (Some ''attachment; filename=wallpaper_hanja_123.svg'')) =
     BodyText ''<svg/>'' \<and>
   fetchPreview (Resolved (exampleResponse 200 (Some ''attachment; filename=wallpaper_hanja_123.svg'')))
     (examplePage (Num 7) []) =
   Inr ((examplePage (Num 7) [])
         \<lparr>currentCharacterId := Num 123, previewContainer_innerHTML := ''<svg/>'',
          fetched := [''/hanja-api/wallpaper?output_type=svg&character_list=hanja&iphone_model=iphone+15'']\<rparr>)"
proof -
  let ?r = "exampleResponse 200 (Some ''attachment; filename=wallpaper_hanja_123.svg'')"
  have ok: "response_ok ?r" by (rule exampleResponse_ok)
  have tx: "response_text ?r = BodyText ''<svg/>''" by (rule exampleResponse_simps)
  from last_seen_id_after_success [OF ok tx, of "examplePage (Num 7) []"]
  obtain st' where s: "fetchPreview (Resolved ?r) (examplePage (Num 7) []) = Inr st'"
    by blast
  with fetchPreview_example_123 ok tx show ?thesis by simp
qed

text \<open>
  C5: a preview fetch that gets a response with a status outside 200..299 ends with the error
  indicator, which differs from the loading indicator, in the preview container, whatever
  the body of the response; the last-seen id is as before, and the one request the fetch
  made is the only one it makes.
\<close>

theorem failed_status_shows_error:
  assumes "\<not> response_ok resp"
  shows "fetchPreview (Resolved resp) st =
           Inr (st\<lparr>previewContainer_innerHTML := errorIndicator,
                   fetched := fetched st @ [buildApiUrl st ''svg'' False]\<rparr>) \<and>
         errorIndicator \<noteq> loadingIndicator \<and>
         fetchPreview_onFetch (Resolved resp) st = Inr (catch st, None) \<and>
         currentCharacterId (catch st) = currentCharacterId st \<and>
         fetched (catch st) = fetched st"
  using assms
  by (simp add: fetchPreview_not_ok fetchPreview_start_eq catch_def indicators_differ
      fetchPreview_onFetch_def tryFetched_def)

theorem failed_status_shows_error_witness:
  "\<not> response_ok (exampleResponse 500 (Some ''attachment; filename=wallpaper_hanja_123.svg'')) \<and>
   fetchPreview (Resolved (exampleResponse 500 (Some ''attachment; filename=wallpaper_hanja_123.svg'')))
     (examplePage (Num 7) []) =
   Inr ((examplePage (Num 7) [])
         \<lparr>previewContainer_innerHTML := errorIndicator,
          fetched := [''/hanja-api/wallpaper?output_type=svg&character_list=hanja&iphone_model=iphone+15'']\<rparr>)"
proof -
  let ?r = "exampleResponse 500 (Some ''attachment; filename=wallpaper_hanja_123.svg'')"
  have n: "\<not> response_ok ?r" by (rule exampleResponse_ok)
  have u: "buildApiUrl (examplePage (Num 7) []) ''svg'' False =
      ''/hanja-api/wallpaper?output_type=svg&character_list=hanja&iphone_model=iphone+15''"
    by code_simp
  from failed_status_shows_error [OF n, of "examplePage (Num 7) []", THEN conjunct1]
  show ?thesis using n by (simp add: u examplePage_simps)
qed

text \<open>
  C6, as amended: on a successful preview response with a \<^verbatim>\<open>Content-Disposition\<close> header,
  the digits become the last-seen id only from a file name \<^verbatim>\<open>wallpaper_<w>_<digits>.svg\<close>
  in the header, where \<open>w\<close> is any non-empty run of word characters: with such a file name
  the id is what \<^verbatim>\<open>parseInt\<close> makes of the digits of the leftmost one, and with none the
  id stays as it was. The selected character set takes no part: \<open>w\<close> is not compared with
  it, and selecting another set changes nothing of the resulting id.
\<close>

theorem filename_any_word_component:
  assumes "response_ok resp" and "response_text resp = BodyText t"
    and "response_contentDisposition resp = Some h"
  shows "\<exists>st'. fetchPreview (Resolved resp) st = Inr st' \<and>
           (if \<exists>pre w ds post. matchesFilename h pre w ds post
            then \<exists>pre w ds post.
                   matchesFilename h pre w ds post \<and>
                   (\<forall>pre' w' ds' post'.
                      matchesFilename h pre' w' ds' post' \<longrightarrow> length pre \<le> length pre') \<and>
                   currentCharacterId st' = parseInt10 ds \<and>
                   (digitsValue ds \<le> 2 ^ 53 \<longrightarrow> currentCharacterId st' = Num (digitsValue ds))
            else currentCharacterId st' = currentCharacterId st) \<and>
           (\<forall>characterSet. \<exists>st''.
              fetchPreview (Resolved resp) (st\<lparr>characterSetSelect_value := characterSet\<rparr>) = Inr st'' \<and>
              (if \<exists>pre w ds post. matchesFilename h pre w ds post
               then currentCharacterId st'' = currentCharacterId st'
               else currentCharacterId st'' = currentCharacterId st))"
proof -
  let ?st1 = "\<lambda>s. (fetchPreview_start s)\<lparr>previewContainer_innerHTML := t\<rparr>"
  have r: "fetchPreview (Resolved resp) s = Inr (extractCharacterId resp (?st1 s))" for s
    using assms(1,2) by (rule fetchPreview_ok)
  have id1: "currentCharacterId (?st1 s) = currentCharacterId s" for s
    by (simp add: fetchPreview_start_eq)
  show ?thesis
  proof (cases "\<exists>pre w ds post. matchesFilename h pre w ds post")
    case False
    then have "extractCharacterId resp s = s" for s
      using extractCharacterId_header [OF assms(3), of s] by simp
    then show ?thesis using False r id1 by simp
  next
    case True
    then obtain pre w ds post where
      m: "matchesFilename h pre w ds post"
      "\<forall>pre' w' ds' post'. matchesFilename h pre' w' ds' post' \<longrightarrow> length pre \<le> length pre'"
      "extractCharacterId resp (?st1 st) = (?st1 st)\<lparr>currentCharacterId := parseInt10 ds\<rparr>"
      using extractCharacterId_header [OF assms(3), of "?st1 st"] by auto
    have d: "ds \<noteq> []" "list_all isDigit ds" using m(1) by (simp_all add: matchesFilename_def)
    have "regexSearch filenamePattern h \<noteq> None"
      using True regexSearch_filename_None [of h] by blast
    then obtain c where c: "regexSearch filenamePattern h = Some c" by auto
    from regexSearch_filename_Some [OF c] obtain ds0 where c0: "c = [ds0]" by blast
    have e: "extractCharacterId resp s = s\<lparr>currentCharacterId := parseInt10 ds0\<rparr>" for s
      using extractCharacterId_match [of resp h ds0 s] assms(3) c c0 by simp
    have "parseInt10 ds0 = parseInt10 ds"
      using e [of "?st1 st"] m(3)
      by (metis page.select_convs(1) page.surjective page.update_convs(1))
    then have e': "extractCharacterId resp s = s\<lparr>currentCharacterId := parseInt10 ds\<rparr>" for s
      using e by simp
    have c1: "currentCharacterId (extractCharacterId resp (?st1 st)) = parseInt10 ds"
      by (simp add: e')
    have x: "digitsValue ds \<le> 2 ^ 53 \<longrightarrow>
               currentCharacterId (extractCharacterId resp (?st1 st)) = Num (digitsValue ds)"
      using parseInt10_exact [OF d] c1 by simp
    have a: "\<exists>pre w ds post.
                   matchesFilename h pre w ds post \<and>
                   (\<forall>pre' w' ds' post'.
                      matchesFilename h pre' w' ds' post' \<longrightarrow> length pre \<le> length pre') \<and>
                   currentCharacterId (extractCharacterId resp (?st1 st)) = parseInt10 ds \<and>
                   (digitsValue ds \<le> 2 ^ 53 \<longrightarrow>
                      currentCharacterId (extractCharacterId resp (?st1 st)) = Num (digitsValue ds))"
      using m(1,2) c1 x by blast
    have b: "currentCharacterId (extractCharacterId resp (?st1 s)) =
             currentCharacterId (extractCharacterId resp (?st1 st))" for s
      by (simp add: e')
    show ?thesis using True a b r by simp
  qed
qed

theorem filename_any_word_component_witness:
  "response_ok (exampleResponse 200 (Some ''form-data; name=f; filename=wallpaper_x_5.svg'')) \<and>
   response_text (exampleResponse 200 (Some ''form-data; name=f; filename=wallpaper_x_5.svg'')) =
     BodyText ''<svg/>'' \<and>
   response_contentDisposition (exampleResponse 200 (Some ''form-data; name=f; filename=wallpaper_x_5.svg'')) =
     Some ''form-data; name=f; filename=wallpaper_x_5.svg'' \<and>
   matchesFilename ''form-data; name=f; filename=wallpaper_x_5.svg'' ''form-data; name=f; '' ''x'' ''5'' [] \<and>
   characterSetSelect_value (examplePage Null []) = ''hanja'' \<and>
   fetchPreview (Resolved (exampleResponse 200 (Some ''form-data; name=f; filename=wallpaper_x_5.svg'')))
     (examplePage Null []) =
   Inr ((examplePage Null [])
         \<lparr>currentCharacterId := Num 5, previewContainer_innerHTML := ''<svg/>'',
          fetched := [''/hanja-api/wallpaper?output_type=svg&character_list=hanja&iphone_model=iphone+15'']\<rparr>)"
proof -
  let ?h = "''form-data; name=f; filename=wallpaper_x_5.svg''"
  let ?r = "exampleResponse 200 (Some ?h)"
  have ok: "response_ok ?r" by (rule exampleResponse_ok)
  have tx: "response_text ?r = BodyText ''<svg/>''" by (rule exampleResponse_simps)
  have hd: "response_contentDisposition ?r = Some ?h" by (rule exampleResponse_simps)
  have m: "matchesFilename ?h ''form-data; name=f; '' ''x'' ''5'' []"
    by (simp add: matchesFilename_def isWord_def isDigit_def)
  from filename_any_word_component [OF ok tx hd, of "examplePage Null []"]
  obtain st' where s: "fetchPreview (Resolved ?r) (examplePage Null []) = Inr st'"
    by blast
  with fetchPreview_example_form_data ok tx hd m show ?thesis by (simp add: examplePage_simps)
qed

text \<open>
  The claim C6 as it was stated fails: with the character set \<open>hanja\<close> selected, a file
  name whose middle component is \<open>other\<close> sets the last-seen id.
\<close>

theorem filename_component_not_compared_counterexample:
  "characterSetSelect_value (examplePage Null []) = ''hanja'' \<and>
   currentCharacterId (examplePage Null []) = Null \<and>
   fetchPreview (Resolved (exampleResponse 200 (Some ''attachment; filename=wallpaper_other_5.svg'')))
     (examplePage Null []) =
   Inr ((examplePage Null [])
         \<lparr>currentCharacterId := Num 5, previewContainer_innerHTML := ''<svg/>'',
          fetched := [''/hanja-api/wallpaper?output_type=svg&character_list=hanja&iphone_model=iphone+15'']\<rparr>)"
  by (simp add: examplePage_simps fetchPreview_example_other)

text \<open>
  C8: whatever the network answers, a call of \<^verbatim>\<open>fetchPreview\<close> is fulfilled, never
  rejected, and so is each of its two continuations; at the end the preview container holds
  the error indicator or the text of the response.
\<close>

theorem fetchPreview_total:
  "(\<exists>st'. fetchPreview r st = Inr st' \<and>
      (previewContainer_innerHTML st' = errorIndicator \<or>
       (\<exists>resp t. r = Resolved resp \<and> response_ok resp \<and> response_text resp = BodyText t \<and>
                  previewContainer_innerHTML st' = t))) \<and>
   (\<exists>st1 w. fetchPreview_onFetch r st = Inr (st1, w) \<and>
      (case w of
         None \<Rightarrow> previewContainer_innerHTML st1 = errorIndicator
       | Some resp \<Rightarrow> st1 = st \<and> r = Resolved resp \<and> response_ok resp)) \<and>
   (\<exists>st'. fetchPreview_onText resp0 st = Inr st' \<and>
      (previewContainer_innerHTML st' = errorIndicator \<or>
       response_text resp0 = BodyText (previewContainer_innerHTML st')))"
proof (intro conjI)
  show "\<exists>st1 w. fetchPreview_onFetch r st = Inr (st1, w) \<and>
      (case w of
         None \<Rightarrow> previewContainer_innerHTML st1 = errorIndicator
       | Some resp \<Rightarrow> st1 = st \<and> r = Resolved resp \<and> response_ok resp)"
    by (cases r) (auto simp: fetchPreview_onFetch_def tryFetched_def catch_def)
  show t: "\<exists>st'. fetchPreview_onText resp0 st = Inr st' \<and>
      (previewContainer_innerHTML st' = errorIndicator \<or>
       response_text resp0 = BodyText (previewContainer_innerHTML st'))" for resp0 st
    by (cases "response_text resp0")
      (auto simp: fetchPreview_onText_def tryText_def catch_def extractCharacterId_fields)
  show "\<exists>st'. fetchPreview r st = Inr st' \<and>
      (previewContainer_innerHTML st' = errorIndicator \<or>
       (\<exists>resp t. r = Resolved resp \<and> response_ok resp \<and> response_text resp = BodyText t \<and>
                  previewContainer_innerHTML st' = t))"
  proof (cases r)
    case Rejected
    then show ?thesis
      by (simp add: fetchPreview_def fetchPreview_onFetch_def tryFetched_def catch_def)
  next
    case (Resolved resp)
    show ?thesis
    proof (cases "response_ok resp")
      case False
      then show ?thesis using Resolved by (simp add: fetchPreview_not_ok catch_def)
    next
      case True
      then have "fetchPreview r st = fetchPreview_onText resp (fetchPreview_start st)"
        using Resolved by (simp add: fetchPreview_def fetchPreview_onFetch_def tryFetched_def)
      with t [of resp "fetchPreview_start st"] True Resolved show ?thesis by auto
    qed
  qed
qed

section \<open>The claims about the listeners and the download\<close>

text \<open>
  C7: the \<^verbatim>\<open>change\<close> listener of the character-set control sets the last-seen id to
  \<^verbatim>\<open>null\<close> and only then starts the preview fetch: the request goes out from a page
  whose last-seen id is \<^verbatim>\<open>null\<close>, and nothing of what the listener does depends on the
  id that was stored before.
\<close>

theorem character_set_change_resets_id:
  "currentCharacterId (onCharacterSetChange st) = Null \<and>
   (\<exists>st0. currentCharacterId st0 = Null \<and> fetched st0 = fetched st \<and>
          onCharacterSetChange st = fetchPreview_start st0 \<and>
          fetched (fetchPreview_start st0) = fetched st0 @ [buildApiUrl st0 ''svg'' False]) \<and>
   onCharacterSetChange (st\<lparr>currentCharacterId := v\<rparr>) = onCharacterSetChange st \<and>
   handle (CharacterSetChange cs) st = onCharacterSetChange (st\<lparr>characterSetSelect_value := cs\<rparr>) \<and>
   currentCharacterId (handle (CharacterSetChange cs) st) = Null \<and>
   last (fetched (handle (CharacterSetChange cs) st)) =
     buildApiUrl (st\<lparr>characterSetSelect_value := cs, currentCharacterId := Null\<rparr>) ''svg'' False"
proof (intro conjI)
  show "currentCharacterId (onCharacterSetChange st) = Null"
    by (simp add: onCharacterSetChange_def fetchPreview_start_eq)
  have "currentCharacterId (st\<lparr>currentCharacterId := Null\<rparr>) = Null \<and>
        fetched (st\<lparr>currentCharacterId := Null\<rparr>) = fetched st \<and>
        onCharacterSetChange st = fetchPreview_start (st\<lparr>currentCharacterId := Null\<rparr>) \<and>
        fetched (fetchPreview_start (st\<lparr>currentCharacterId := Null\<rparr>)) =
          fetched (st\<lparr>currentCharacterId := Null\<rparr>) @
          [buildApiUrl (st\<lparr>currentCharacterId := Null\<rparr>) ''svg'' False]"
    by (simp add: onCharacterSetChange_def fetchPreview_start_fetched)
  then show "\<exists>st0. currentCharacterId st0 = Null \<and> fetched st0 = fetched st \<and>
          onCharacterSetChange st = fetchPreview_start st0 \<and>
          fetched (fetchPreview_start st0) = fetched st0 @ [buildApiUrl st0 ''svg'' False]"
    by blast
  show "onCharacterSetChange (st\<lparr>currentCharacterId := v\<rparr>) = onCharacterSetChange st"
    by (simp add: onCharacterSetChange_def)
  show "handle (CharacterSetChange cs) st = onCharacterSetChange (st\<lparr>characterSetSelect_value := cs\<rparr>)"
    by simp
  show "currentCharacterId (handle (CharacterSetChange cs) st) = Null"
    by (simp add: onCharacterSetChange_def fetchPreview_start_eq)
  show "last (fetched (handle (CharacterSetChange cs) st)) =
     buildApiUrl (st\<lparr>characterSetSelect_value := cs, currentCharacterId := Null\<rparr>) ''svg'' False"
    by (simp add: onCharacterSetChange_def fetchPreview_start_fetched)
qed

text \<open>
  C9: the file name the download suggests is made of the selected character set and the
  last-seen id alone, \<open>random\<close> standing for an id that is not truthy; the id field has no
  part in it. So a last-seen id of 0 gives \<open>random\<close> while the URL carries
  \<open>character_id=0\<close>, and a filled id field with no last-seen id gives \<open>random\<close> while the
  URL carries the field's value.
\<close>

theorem download_name_from_last_seen_id:
  "snd (last (clicked (downloadPng st))) =
     ''wallpaper_'' @ characterSetSelect_value st @ ''_'' @
     (if truthy (currentCharacterId st) then toString (currentCharacterId st) else ''random'') @
     ''.png'' \<and>
   downloadName (st\<lparr>characterIdInput_value := field\<rparr>) = downloadName st \<and>
   fst (last (clicked (downloadPng st))) = buildApiUrl st ''png'' True \<and>
   searchParams (buildApiUrl st ''png'' True) = Some (buildApiParams st ''png'' True) \<and>
   getAll (buildApiParams st ''png'' True) ''character_id'' =
     (if trim (characterIdInput_value st) \<noteq> [] then [trim (characterIdInput_value st)]
      else if currentCharacterId st \<noteq> Null then [toString (currentCharacterId st)]
      else []) \<and>
   \<not> truthy (Num 0) \<and> \<not> truthy Null \<and> toString (Num 0) = ''0''"
  by (simp add: downloadPng_clicked downloadName_def searchParams_buildApiUrl
      buildApiParams_character_id toString_small)

theorem download_name_from_last_seen_id_witness:
  "clicked (downloadPng (examplePage (Num 0) [])) =
     [(''/hanja-api/wallpaper?output_type=png&character_list=hanja&iphone_model=iphone+15&character_id=0'',
       ''wallpaper_hanja_random.png'')] \<and>
   clicked (downloadPng (examplePage Null ''42'')) =
     [(''/hanja-api/wallpaper?output_type=png&character_list=hanja&iphone_model=iphone+15&character_id=42'',
       ''wallpaper_hanja_random.png'')] \<and>
   clicked (downloadPng (examplePage (Num 7) [])) =
     [(''/hanja-api/wallpaper?output_type=png&character_list=hanja&iphone_model=iphone+15&character_id=7'',
       ''wallpaper_hanja_7.png'')] \<and>
   snd (last (clicked (downloadPng (examplePage (Num 0) ''42'')))) = ''wallpaper_hanja_random.png''"
proof -
  have a: "clicked (downloadPng (examplePage (Num 0) [])) =
     [(''/hanja-api/wallpaper?output_type=png&character_list=hanja&iphone_model=iphone+15&character_id=0'',
       ''wallpaper_hanja_random.png'')]"
    by code_simp
  have b: "clicked (downloadPng (examplePage Null ''42'')) =
     [(''/hanja-api/wallpaper?output_type=png&character_list=hanja&iphone_model=iphone+15&character_id=42'',
       ''wallpaper_hanja_random.png'')]"
    by code_simp
  have c: "clicked (downloadPng (examplePage (Num 7) [])) =
     [(''/hanja-api/wallpaper?output_type=png&character_list=hanja&iphone_model=iphone+15&character_id=7'',
       ''wallpaper_hanja_7.png'')]"
    by code_simp
  have d: "snd (last (clicked (downloadPng (examplePage (Num 0) ''42'')))) = ''wallpaper_hanja_random.png''"
    using download_name_from_last_seen_id [of "examplePage (Num 0) ''42''", THEN conjunct1]
    by (simp add: examplePage_simps)
  from a b c d show ?thesis by blast
qed




end
